theory Spec2Isabelle
  imports Main
begin

section \<open>Timetable text to recurring calendar events: a model of main.py\<close>

text \<open>
  The theory embeds the parser and calendar logic of \<^verbatim>\<open>main.py\<close>: the extraction of
  course reference numbers from OCR text, weekday resolution, time parsing, the
  normalisation of a section into occurrences, the deduplication and batch submission of
  the \<^verbatim>\<open>/create-events\<close> endpoint, and the construction of the recurring event payload.
  Exceptions are values of \<open>pyerror\<close>; every \<^verbatim>\<open>try\<close>/\<^verbatim>\<open>except\<close> of the source is a case
  distinction on a sum.  The collaborators the source calls but does not define (the
  section resolver, the calendar service, the time-zone database, the ISO-8601 parser,
  the system clock, the Unicode Character Database) are parameters of the functions that
  use them.
\<close>

datatype pyerror =
    ValueError | KeyError | AttributeError | OverflowError | ResolverError | ServiceError

subsection \<open>Values and event dictionaries\<close>

text \<open>
  A date is represented by its proleptic Gregorian ordinal (\<^verbatim>\<open>date.toordinal()\<close>, day 1 is
  0001-01-01), the quantity through which CPython defines both \<^verbatim>\<open>date.weekday()\<close> and
  the addition of a \<^verbatim>\<open>timedelta\<close>.  The largest date, 9999-12-31, has ordinal 3652059.
\<close>

datatype date = Date (toordinal: int)

record time =
  hour :: nat
  minute :: nat
  second :: nat
  microsecond :: nat

datatype tzinfo = UTC | FixedOffset int | Eastern bool

record datetime =
  dt_date :: date
  dt_time :: time
  dt_tzinfo :: "tzinfo option"

text \<open>
  The values an event dictionary holds.  A request body is JSON: the fields of an
  occurrence are strings, booleans or null (\<open>jval\<close>).  Inside the server a field can also
  be a \<^verbatim>\<open>datetime\<close> object (\<open>pyval\<close>).  On JSON values of these three kinds Python's
  \<^verbatim>\<open>==\<close> and \<^verbatim>\<open>hash\<close> agree with structural equality.  JSON numbers and nested
  containers are not fields of an occurrence and are outside the model.
\<close>

datatype jval = JNull | JBool bool | JStr string

datatype pyval = PyNone | PyBool bool | PyStr string | PyDatetime datetime

type_synonym jevent = "string \<rightharpoonup> jval"

type_synonym event = "string \<rightharpoonup> pyval"

text \<open>\<^verbatim>\<open>event.get(k)\<close>: a missing key reads as \<^verbatim>\<open>None\<close>.\<close>

definition jget :: "jevent \<Rightarrow> string \<Rightarrow> jval" where
  "jget e k = (case e k of None \<Rightarrow> JNull | Some v \<Rightarrow> v)"

text \<open>Truthiness, as \<^verbatim>\<open>or\<close>, \<^verbatim>\<open>and\<close> and \<^verbatim>\<open>if\<close> test it.\<close>

fun jtruthy :: "jval \<Rightarrow> bool" where
  "jtruthy JNull = False"
| "jtruthy (JBool b) = b"
| "jtruthy (JStr s) = (s \<noteq> [])"

text \<open>\<^verbatim>\<open>str(v)\<close> on a JSON value.\<close>

fun jstr :: "jval \<Rightarrow> string" where
  "jstr JNull = ''None''"
| "jstr (JBool b) = (if b then ''True'' else ''False'')"
| "jstr (JStr s) = s"

text \<open>\<^verbatim>\<open>a or b\<close>.\<close>

definition jor :: "jval \<Rightarrow> jval \<Rightarrow> jval" where
  "jor a b = (if jtruthy a then a else b)"

subsection \<open>Deduplication (create\_events\_in\_calendar, first loop)\<close>

type_synonym dedup_key = "jval \<times> jval \<times> jval \<times> jval \<times> jval"

definition dedup_key :: "jevent \<Rightarrow> dedup_key" where
  "dedup_key event =
     (jget event ''subject'',
      jget event ''day'',
      jor (jget event ''start_time_str'') (JStr (jstr (jget event ''start_datetime''))),
      jor (jget event ''end_time_str'') (JStr (jstr (jget event ''end_datetime''))),
      jget event ''location'')"

text \<open>
  \<^verbatim>\<open>unique_events\<close> is a Python dictionary: insertion ordered, keys unique.  It is the
  association list of its items in insertion order; a new key is appended.
\<close>

fun dedup_loop :: "(dedup_key \<times> jevent) list \<Rightarrow> jevent list \<Rightarrow> (dedup_key \<times> jevent) list" where
  "dedup_loop unique_events [] = unique_events"
| "dedup_loop unique_events (event # events) =
     (let key = dedup_key event in
      if map_of unique_events key = None
      then dedup_loop (unique_events @ [(key, event)]) events
      else dedup_loop unique_events events)"

text \<open>\<^verbatim>\<open>unique_events.values()\<close> after the loop.\<close>

definition dedup :: "jevent list \<Rightarrow> jevent list" where
  "dedup events = map snd (dedup_loop [] events)"

text \<open>
  The specification's reading of the survivors: the items with no earlier item of equal
  key, in input order.
\<close>

definition first_occurrences :: "jevent list \<Rightarrow> jevent list" where
  "first_occurrences X =
     map (\<lambda>i. X ! i)
       (filter (\<lambda>i. list_all (\<lambda>j. dedup_key (X ! j) \<noteq> dedup_key (X ! i)) [0..<i])
          [0..<length X])"

subsection \<open>Text and the Unicode Character Database\<close>

text \<open>
  A Python \<^verbatim>\<open>str\<close> is a sequence of Unicode code points.  The two functions whose result
  depends on what Unicode says of a character, the scan for identifiers (the class
  \<^verbatim>\<open>\d\<close>) and the parser of times (\<^verbatim>\<open>\d\<close>, \<^verbatim>\<open>int()\<close>, \<^verbatim>\<open>upper()\<close>), are modelled on
  lists of code points, a code point being a natural number.  What they consult of the
  Unicode Character Database is a parameter: \<open>decimal U c\<close> is the value of \<open>c\<close> as a
  decimal digit when \<open>c\<close> is one (general category Nd: the characters that \<^verbatim>\<open>\d\<close> matches
  in a \<^verbatim>\<open>str\<close> pattern and that \<^verbatim>\<open>int()\<close> reads), and \<open>uppercase U c\<close> is the full upper-case
  mapping of \<open>c\<close>, the code points that \<^verbatim>\<open>str.upper()\<close> puts in its place.
\<close>

record unicode_data =
  decimal :: "nat \<Rightarrow> nat option"
  uppercase :: "nat \<Rightarrow> nat list"

text \<open>The code points of a string of 8-bit characters, such as a literal of the program.\<close>

definition cps :: "string \<Rightarrow> nat list" where
  "cps s = map of_char s"

text \<open>The class \<^verbatim>\<open>\d\<close> of a \<^verbatim>\<open>str\<close> pattern.\<close>

definition re_d :: "unicode_data \<Rightarrow> nat \<Rightarrow> bool" where
  "re_d U c = (decimal U c \<noteq> None)"

text \<open>
  What the database says of ASCII and of digit values: among the code points below 128
  the decimal digits are the ten characters \<^verbatim>\<open>0\<close> to \<^verbatim>\<open>9\<close> (code points 48 to 57), with the
  values 0 to 9, and the value of every decimal digit is below 10.
\<close>

definition ascii_decimals :: "unicode_data \<Rightarrow> bool" where
  "ascii_decimals U =
     ((\<forall>c<128. decimal U c = (if 48 \<le> c \<and> c \<le> 57 then Some (c - 48) else None)) \<and>
      (\<forall>c d. decimal U c = Some d \<longrightarrow> d < 10))"

text \<open>
  An excerpt of the database: its entries for the code points 0 to 255 and for the
  Arabic-Indic digits U+0660 to U+0669 (1632 to 1641).  Below 256 the decimal digits are
  the ASCII digits; \<^verbatim>\<open>upper()\<close> maps \<^verbatim>\<open>a\<close> to \<^verbatim>\<open>z\<close> and the letters 224 to 254 (247, the
  division sign, apart) 32 code points down, the micro sign (181) to the Greek capital mu
  (924), the sharp s (223) to \<^verbatim>\<open>SS\<close> and the y with diaeresis (255) to its capital (376),
  and leaves every other character as it is.  Of a code point outside the excerpt the
  definition says that it is no digit and its own upper case, which is not claimed of
  Unicode: the excerpt is applied to strings of its own code points only.
\<close>

definition ucd_excerpt :: unicode_data where
  "ucd_excerpt =
     \<lparr>decimal = (\<lambda>c. if 48 \<le> c \<and> c \<le> 57 then Some (c - 48)
                      else if 1632 \<le> c \<and> c \<le> 1641 then Some (c - 1632)
                      else None),
      uppercase = (\<lambda>c. if 97 \<le> c \<and> c \<le> 122 then [c - 32]
                        else if c = 181 then [924]
                        else if c = 223 then [83, 83]
                        else if 224 \<le> c \<and> c \<le> 254 \<and> c \<noteq> 247 then [c - 32]
                        else if c = 255 then [376]
                        else [c])\<rparr>"

subsection \<open>Identifier extraction (parse\_timetable\_text, line 105)\<close>

text \<open>
  \<^verbatim>\<open>re.findall(r'(\d{5})', text, re.MULTILINE)\<close>: the scan tries a match at the current
  position; a match needs five characters of class \<^verbatim>\<open>\d\<close> there, its group is
  collected and the scan resumes after it; otherwise the scan moves one character on.
  The text is a list of characters of any type and \<open>d\<close> is the class \<^verbatim>\<open>\d\<close>; in
  \<open>parse_timetable_text\<close> the characters are code points and the class is \<open>re_d U\<close>.
\<close>

fun findall5 :: "('c \<Rightarrow> bool) \<Rightarrow> 'c list \<Rightarrow> 'c list list" where
  "findall5 d [] = []"
| "findall5 d (c # cs) =
     (if 5 \<le> length (c # cs) \<and> list_all d (take 5 (c # cs))
      then take 5 (c # cs) # findall5 d (drop 4 cs)
      else findall5 d cs)"

text \<open>
  The specification's vocabulary: the maximal runs of digits of a text, in order of
  occurrence; the runs of exactly five digits among them; and the successive blocks of
  five characters of a run (what is left over at the end of the run is dropped).
\<close>

function digit_runs :: "('c \<Rightarrow> bool) \<Rightarrow> 'c list \<Rightarrow> 'c list list" where
  "digit_runs d [] = []"
| "digit_runs d (c # cs) =
     (if d c then takeWhile d (c # cs) # digit_runs d (dropWhile d cs)
      else digit_runs d cs)"
  by pat_completeness auto
termination
  by (relation "measure (\<lambda>(d, cs). length cs)")
     (auto simp: less_Suc_eq_le length_dropWhile_le)

definition maximal_runs_of_5 :: "('c \<Rightarrow> bool) \<Rightarrow> 'c list \<Rightarrow> 'c list list" where
  "maximal_runs_of_5 d text = filter (\<lambda>r. length r = 5) (digit_runs d text)"

function blocks5 :: "'c list \<Rightarrow> 'c list list" where
  "blocks5 r = (if 5 \<le> length r then take 5 r # blocks5 (drop 5 r) else [])"
  by pat_completeness auto
termination
  by (relation "measure length") auto

subsection \<open>Weekday resolution (get\_next\_weekday\_date)\<close>

text \<open>
  \<^verbatim>\<open>date.weekday()\<close> is \<^verbatim>\<open>(toordinal() + 6) % 7\<close>, Monday being 0.  Adding a
  \<^verbatim>\<open>timedelta\<close> of \<open>n\<close> days adds \<open>n\<close> to the ordinal and raises \<^verbatim>\<open>OverflowError\<close> when
  the result leaves the range of dates.
\<close>

definition MAXORDINAL :: int where
  "MAXORDINAL = 3652059"

definition valid_date :: "date \<Rightarrow> bool" where
  "valid_date d = (1 \<le> toordinal d \<and> toordinal d \<le> MAXORDINAL)"

definition weekday :: "date \<Rightarrow> int" where
  "weekday d = (toordinal d + 6) mod 7"

definition date_add :: "date \<Rightarrow> int \<Rightarrow> pyerror + date" where
  "date_add d n =
     (let ord = toordinal d + n in
      if 0 < ord \<and> ord \<le> MAXORDINAL then Inr (Date ord) else Inl OverflowError)"

text \<open>
  \<^verbatim>\<open>str.lower()\<close> on the letters A to Z; every other character of the model is left as
  it is.  The program lowers a day name only to look it up among the weekday names.
  Outside ASCII Python's \<^verbatim>\<open>lower()\<close> yields no ASCII letter of a weekday name: a string
  with such a character fails the lookup in Python as it does in the model.
\<close>

definition lower_char :: "char \<Rightarrow> char" where
  "lower_char c =
     (case map_of (zip ''ABCDEFGHIJKLMNOPQRSTUVWXYZ'' ''abcdefghijklmnopqrstuvwxyz'') c of
        None \<Rightarrow> c | Some l \<Rightarrow> l)"

definition lower :: "string \<Rightarrow> string" where
  "lower s = map lower_char s"

text \<open>\<^verbatim>\<open>list.index(x)\<close>; \<open>None\<close> stands for the \<^verbatim>\<open>ValueError\<close> of a missing element.\<close>

fun index_of :: "'a list \<Rightarrow> 'a \<Rightarrow> nat option" where
  "index_of [] x = None"
| "index_of (y # ys) x = (if y = x then Some 0 else map_option Suc (index_of ys x))"

definition days_of_week :: "string list" where
  "days_of_week =
     [''monday'', ''tuesday'', ''wednesday'', ''thursday'', ''friday'', ''saturday'', ''sunday'']"

text \<open>\<open>today\<close> is the value of \<^verbatim>\<open>datetime.now().date()\<close>.\<close>

definition get_next_weekday_date :: "date \<Rightarrow> string \<Rightarrow> pyerror + date" where
  "get_next_weekday_date today day_name =
     (case index_of days_of_week (lower day_name) of
        None \<Rightarrow> Inr today
      | Some target_day_index \<Rightarrow>
          (let days_ahead = (int target_day_index - weekday today + 7) mod 7;
               days_ahead = (if days_ahead = 0 then 7 else days_ahead)
           in date_add today days_ahead))"

subsection \<open>Time parsing (parse\_time)\<close>

text \<open>
  \<^verbatim>\<open>datetime.strptime\<close> is library code.  CPython's \<^verbatim>\<open>_strptime\<close> turns a format into a
  regular expression, compiled with \<^verbatim>\<open>IGNORECASE\<close>, in which the directives stand for
  \<^verbatim>\<open>%I = (1[0-2]|0[1-9]|[1-9])\<close>, \<^verbatim>\<open>%H = (2[0-3]|[0-1]\d|\d)\<close>,
  \<^verbatim>\<open>%M = ([0-5]\d|\d)\<close> and \<^verbatim>\<open>%p = (am|pm)\<close> (the C and English locales); it matches
  the expression at the start of the string with \<^verbatim>\<open>re.match\<close> and raises \<^verbatim>\<open>ValueError\<close> when there is no match or when
  the match ends before the end of the string.

  A regular expression is modelled by the backtracking search that \<^verbatim>\<open>re\<close> performs: a
  matcher maps the input to the list of its ways to match a prefix, in the order in which
  the search tries them, each with the matched text and the remaining input.
  \<^verbatim>\<open>re.match\<close> finds the first element of the list.

  The input is a list of code points.  A class written with ASCII characters, such as
  \<^verbatim>\<open>[0-5]\<close>, holds these characters only, whereas \<^verbatim>\<open>\d\<close> holds the decimal digits of every
  script.  Under \<^verbatim>\<open>IGNORECASE\<close> the letters \<^verbatim>\<open>a\<close>, \<^verbatim>\<open>m\<close> and \<^verbatim>\<open>p\<close> of the expression match
  themselves and their capitals, and no other character of Unicode.
\<close>

type_synonym 'a matches = "('a \<times> nat list) list"

definition cls :: "string \<Rightarrow> nat \<Rightarrow> bool" where
  "cls cs c = (c \<in> set (cps cs))"

definition one_of :: "(nat \<Rightarrow> bool) \<Rightarrow> nat list \<Rightarrow> nat list matches" where
  "one_of P s = (case s of [] \<Rightarrow> [] | c # r \<Rightarrow> if P c then [([c], r)] else [])"

definition seq_m ::
  "(nat list \<Rightarrow> nat list matches) \<Rightarrow> (nat list \<Rightarrow> nat list matches) \<Rightarrow> nat list \<Rightarrow> nat list matches" where
  "seq_m p q s = concat (map (\<lambda>(a, r). map (\<lambda>(b, r'). (a @ b, r')) (q r)) (p s))"

definition alt_m ::
  "(nat list \<Rightarrow> nat list matches) \<Rightarrow> (nat list \<Rightarrow> nat list matches) \<Rightarrow> nat list \<Rightarrow> nat list matches" where
  "alt_m p q s = p s @ q s"

definition group_I :: "nat list \<Rightarrow> nat list matches" where
  "group_I =
     alt_m (seq_m (one_of (cls ''1'')) (one_of (cls ''012'')))
       (alt_m (seq_m (one_of (cls ''0'')) (one_of (cls ''123456789'')))
          (one_of (cls ''123456789'')))"

definition group_H :: "unicode_data \<Rightarrow> nat list \<Rightarrow> nat list matches" where
  "group_H U =
     alt_m (seq_m (one_of (cls ''2'')) (one_of (cls ''0123'')))
       (alt_m (seq_m (one_of (cls ''01'')) (one_of (re_d U)))
          (one_of (re_d U)))"

definition group_M :: "unicode_data \<Rightarrow> nat list \<Rightarrow> nat list matches" where
  "group_M U = alt_m (seq_m (one_of (cls ''012345'')) (one_of (re_d U))) (one_of (re_d U))"

definition group_p :: "nat list \<Rightarrow> nat list matches" where
  "group_p =
     alt_m (seq_m (one_of (cls ''aA'')) (one_of (cls ''mM'')))
       (seq_m (one_of (cls ''pP'')) (one_of (cls ''mM'')))"

text \<open>The expressions of the formats \<^verbatim>\<open>%I:%M%p\<close> and \<^verbatim>\<open>%H:%M\<close>, with their groups.\<close>

definition regex_I_M_p :: "unicode_data \<Rightarrow> nat list \<Rightarrow> (nat list \<times> nat list \<times> nat list) matches" where
  "regex_I_M_p U s =
     concat (map (\<lambda>(i, r1).
       concat (map (\<lambda>(c, r2).
         concat (map (\<lambda>(m, r3).
           map (\<lambda>(p, r4). ((i, m, p), r4)) (group_p r3))
         (group_M U r2)))
       (one_of (cls '':'') r1)))
     (group_I s))"

definition regex_H_M :: "unicode_data \<Rightarrow> nat list \<Rightarrow> (nat list \<times> nat list) matches" where
  "regex_H_M U s =
     concat (map (\<lambda>(h, r1).
       concat (map (\<lambda>(c, r2).
         map (\<lambda>(m, r3). ((h, m), r3)) (group_M U r2))
       (one_of (cls '':'') r1)))
     (group_H U s))"

text \<open>
  \<^verbatim>\<open>int(s)\<close> on a group of the match: of a non-empty string of decimal digits, of any
  scripts, it is the number they write in base ten.  On any other string the model has
  \<^verbatim>\<open>ValueError\<close>; \<^verbatim>\<open>int\<close> itself also reads a sign, surrounding white space and
  underscores between digits, none of which stands in a group of these expressions.
\<close>

fun digits_of :: "unicode_data \<Rightarrow> nat list \<Rightarrow> nat list option" where
  "digits_of U [] = Some []"
| "digits_of U (c # cs) =
     (case decimal U c of
        None \<Rightarrow> None
      | Some d \<Rightarrow> (case digits_of U cs of None \<Rightarrow> None | Some ds \<Rightarrow> Some (d # ds)))"

definition int_of :: "unicode_data \<Rightarrow> nat list \<Rightarrow> pyerror + nat" where
  "int_of U s =
     (case digits_of U s of
        None \<Rightarrow> Inl ValueError
      | Some ds \<Rightarrow> if ds = [] then Inl ValueError else Inr (foldl (\<lambda>n d. 10 * n + d) 0 ds))"

text \<open>
  \<^verbatim>\<open>str.lower()\<close> on the group of \<^verbatim>\<open>%p\<close>, which holds letters of ASCII only: a capital
  letter moves 32 code points up.
\<close>

definition ascii_lower :: "nat \<Rightarrow> nat" where
  "ascii_lower c = (if 65 \<le> c \<and> c \<le> 90 then c + 32 else c)"

text \<open>
  \<^verbatim>\<open>datetime.strptime(data_string, "%I:%M%p").time()\<close> and
  \<^verbatim>\<open>datetime.strptime(data_string, "%H:%M").time()\<close>.
\<close>

definition strptime_I_M_p :: "unicode_data \<Rightarrow> nat list \<Rightarrow> pyerror + time" where
  "strptime_I_M_p U data_string =
     (case regex_I_M_p U data_string of
        [] \<Rightarrow> Inl ValueError
      | ((i, m, p), rest) # _ \<Rightarrow>
          if rest \<noteq> [] then Inl ValueError
          else
            (case int_of U i of
               Inl e \<Rightarrow> Inl e
             | Inr h \<Rightarrow>
                 (let ampm = map ascii_lower p;
                      h = (if ampm = [] \<or> ampm = cps ''am'' then (if h = 12 then 0 else h)
                           else if ampm = cps ''pm'' then (if h \<noteq> 12 then h + 12 else h)
                           else h)
                  in case int_of U m of
                       Inl e \<Rightarrow> Inl e
                     | Inr mi \<Rightarrow> Inr \<lparr>hour = h, minute = mi, second = 0, microsecond = 0\<rparr>)))"

definition strptime_H_M :: "unicode_data \<Rightarrow> nat list \<Rightarrow> pyerror + time" where
  "strptime_H_M U data_string =
     (case regex_H_M U data_string of
        [] \<Rightarrow> Inl ValueError
      | ((h, m), rest) # _ \<Rightarrow>
          if rest \<noteq> [] then Inl ValueError
          else
            (case int_of U h of
               Inl e \<Rightarrow> Inl e
             | Inr h \<Rightarrow>
                 (case int_of U m of
                    Inl e \<Rightarrow> Inl e
                  | Inr mi \<Rightarrow> Inr \<lparr>hour = h, minute = mi, second = 0, microsecond = 0\<rparr>)))"

text \<open>\<^verbatim>\<open>time_str.replace(" ", "").upper()\<close>: the space is code point 32.\<close>

definition normalize :: "unicode_data \<Rightarrow> nat list \<Rightarrow> nat list" where
  "normalize U time_str = concat (map (uppercase U) (filter (\<lambda>c. c \<noteq> 32) time_str))"

text \<open>
  The loop over the two formats.  A \<^verbatim>\<open>ValueError\<close> passes to the next format; any other
  exception reaches the outer handler, which returns \<^verbatim>\<open>None\<close>; so does the end of the
  loop.  No exception leaves the function, hence the result has no error component.
\<close>

definition parse_time :: "unicode_data \<Rightarrow> nat list \<Rightarrow> time option" where
  "parse_time U time_str =
     (let time_str = normalize U time_str in
      case strptime_I_M_p U time_str of
        Inr t \<Rightarrow> Some t
      | Inl ValueError \<Rightarrow>
          (case strptime_H_M U time_str of
             Inr t \<Rightarrow> Some t
           | Inl ValueError \<Rightarrow> None
           | Inl _ \<Rightarrow> None)
      | Inl _ \<Rightarrow> None)"

text \<open>
  The digits that the program itself writes, in \<^verbatim>\<open>strftime\<close> and in the count of the
  response message, are ASCII digits.
\<close>

definition digit_char :: "nat \<Rightarrow> char" where
  "digit_char n = ''0123456789'' ! n"

definition two_digits :: "nat \<Rightarrow> string" where
  "two_digits n = [digit_char (n div 10), digit_char (n mod 10)]"

text \<open>
  The specification's vocabulary.  A number is written by one decimal digit, of any
  script, or by two decimal digits of which the first is an ASCII digit and the second is
  of any script (a leading zero included).
\<close>

definition ascii_digit :: "nat \<Rightarrow> bool" where
  "ascii_digit c = (48 \<le> c \<and> c \<le> 57)"

definition written :: "unicode_data \<Rightarrow> nat \<Rightarrow> nat list \<Rightarrow> bool" where
  "written U n w =
     (case w of
        [c] \<Rightarrow> decimal U c = Some n
      | [a, b] \<Rightarrow>
          ascii_digit a \<and>
          (case decimal U b of None \<Rightarrow> False | Some d \<Rightarrow> n = 10 * (a - 48) + d)
      | _ \<Rightarrow> False)"

text \<open>The time of day that hour \<open>h\<close> of the 12-hour clock stands for.\<close>

definition time_12h :: "nat \<Rightarrow> nat \<Rightarrow> bool \<Rightarrow> time" where
  "time_12h h m pm =
     \<lparr>hour = h mod 12 + (if pm then 12 else 0), minute = m, second = 0, microsecond = 0\<rparr>"

definition time_24h :: "nat \<Rightarrow> nat \<Rightarrow> time" where
  "time_24h h m = \<lparr>hour = h, minute = m, second = 0, microsecond = 0\<rparr>"

text \<open>
  The two forms as the specification words them, read on the string once its spaces are
  stripped and its letters are in upper case: \<^verbatim>\<open>H:MM\<close> with an \<^verbatim>\<open>AM\<close>/\<^verbatim>\<open>PM\<close> suffix (an hour
  of one or two digits, a colon, a minute of two digits, the suffix) and \<^verbatim>\<open>HH:MM\<close> (two
  digits, a colon, two digits).
\<close>

definition form_12h :: "unicode_data \<Rightarrow> nat list \<Rightarrow> bool" where
  "form_12h U n =
     (let k = length n in
      (k = 6 \<or> k = 7) \<and> list_all (re_d U) (take (k - 5) n) \<and> n ! (k - 5) = 58 \<and>
      re_d U (n ! (k - 4)) \<and> re_d U (n ! (k - 3)) \<and>
      (drop (k - 2) n = cps ''AM'' \<or> drop (k - 2) n = cps ''PM''))"

definition form_24h :: "unicode_data \<Rightarrow> nat list \<Rightarrow> bool" where
  "form_24h U n =
     (length n = 5 \<and> re_d U (n ! 0) \<and> re_d U (n ! 1) \<and> n ! 2 = 58 \<and>
      re_d U (n ! 3) \<and> re_d U (n ! 4))"

subsection \<open>Schedule normalisation (parse\_timetable\_text)\<close>

text \<open>
  A section record of the resolver (\<^verbatim>\<open>pyvt\<close>), with the attributes the parser reads.
  The attributes are strings of 8-bit characters; where the parser of times reads them,
  they stand for their code points 0 to 255, of which \<open>ucd_excerpt\<close> holds the entries of
  the database.
\<close>

record course_section =
  code :: string
  name :: string
  location :: string
  days :: string
  start_time :: string
  end_time :: string

text \<open>\<^verbatim>\<open>sub in s\<close> on strings: \<open>sub\<close> occurs in \<open>s\<close> as a contiguous substring.\<close>

fun contains :: "string \<Rightarrow> string \<Rightarrow> bool" where
  "contains sub [] = (sub = [])"
| "contains sub (c # cs) = (take (length sub) (c # cs) = sub \<or> contains sub cs)"

definition day_map :: "char \<rightharpoonup> string" where
  "day_map =
     map_of [(CHR ''M'', ''Monday''), (CHR ''T'', ''Tuesday''), (CHR ''W'', ''Wednesday''),
             (CHR ''R'', ''Thursday''), (CHR ''F'', ''Friday''), (CHR ''S'', ''Saturday''),
             (CHR ''U'', ''Sunday'')]"

text \<open>\<^verbatim>\<open>datetime.combine(date, time)\<close>: a naive \<^verbatim>\<open>datetime\<close>.\<close>

definition combine :: "date \<Rightarrow> time \<Rightarrow> datetime" where
  "combine d t = \<lparr>dt_date = d, dt_time = t, dt_tzinfo = None\<rparr>"

text \<open>The two dictionaries the parser appends (lines 117 to 123 and 132 to 138).\<close>

definition arranged_event :: "course_section \<Rightarrow> event" where
  "arranged_event section =
     [''subject'' \<mapsto> PyStr (code section @ '' '' @ name section),
      ''location'' \<mapsto> PyStr (location section),
      ''needs_days_input'' \<mapsto> PyBool True,
      ''start_time_str'' \<mapsto> PyStr (start_time section),
      ''end_time_str'' \<mapsto> PyStr (end_time section)]"

definition concrete_event :: "course_section \<Rightarrow> string \<Rightarrow> date \<Rightarrow> time \<Rightarrow> time \<Rightarrow> event" where
  "concrete_event section day_name event_date start_t end_t =
     [''subject'' \<mapsto> PyStr (code section @ '' '' @ name section),
      ''start_datetime'' \<mapsto> PyDatetime (combine event_date start_t),
      ''end_datetime'' \<mapsto> PyDatetime (combine event_date end_t),
      ''location'' \<mapsto> PyStr (location section),
      ''day'' \<mapsto> PyStr day_name]"

text \<open>
  The loop over the characters of \<^verbatim>\<open>section.days\<close>.  It returns the list \<^verbatim>\<open>events\<close> as it
  stands when the loop ends, and the exception that ended it, if any: an exception of
  \<open>get_next_weekday_date\<close> leaves the loop, the events appended before it stay in the
  list.  \<open>today\<close> is the date the clock shows during the request.
\<close>

fun days_loop :: "date \<Rightarrow> course_section \<Rightarrow> string \<Rightarrow> event list \<Rightarrow> event list \<times> pyerror option" where
  "days_loop today section [] events = (events, None)"
| "days_loop today section (d # ds) events =
     (case day_map d of
        None \<Rightarrow> days_loop today section ds events
      | Some day_name \<Rightarrow>
          (case get_next_weekday_date today day_name of
             Inl e \<Rightarrow> (events, Some e)
           | Inr event_date \<Rightarrow>
               (case (parse_time ucd_excerpt (cps (start_time section)),
                      parse_time ucd_excerpt (cps (end_time section))) of
                  (Some start_t, Some end_t) \<Rightarrow>
                    days_loop today section ds
                      (events @ [concrete_event section day_name event_date start_t end_t])
                | _ \<Rightarrow> days_loop today section ds events)))"

text \<open>The body of \<^verbatim>\<open>if section:\<close> (lines 115 to 138).\<close>

definition section_events :: "date \<Rightarrow> course_section \<Rightarrow> event list \<Rightarrow> event list \<times> pyerror option" where
  "section_events today section events =
     (if contains ''ARR'' (days section) then (events @ [arranged_event section], None)
      else days_loop today section (days section) events)"

text \<open>
  The loop over the identifiers.  \<open>crn_lookup\<close> is the resolver
  \<^verbatim>\<open>vt.crn_lookup(crn, open_only=False)\<close>: it raises, finds nothing (\<^verbatim>\<open>None\<close>) or returns
  a section.  Whatever is raised while an identifier is processed is caught by the
  handler of line 139, and the loop goes on with the next identifier.  An identifier is a
  value of any type \<open>'k\<close>; in \<open>parse_timetable_text\<close> it is a list of code points.
\<close>

fun crn_loop ::
  "('k \<Rightarrow> pyerror + course_section option) \<Rightarrow> date \<Rightarrow> 'k list \<Rightarrow> event list \<Rightarrow> event list" where
  "crn_loop crn_lookup today [] events = events"
| "crn_loop crn_lookup today (crn # crns) events =
     crn_loop crn_lookup today crns
       (case crn_lookup crn of
          Inl e \<Rightarrow> events
        | Inr None \<Rightarrow> events
        | Inr (Some section) \<Rightarrow> fst (section_events today section events))"

definition parse_timetable_text ::
  "unicode_data \<Rightarrow> (nat list \<Rightarrow> pyerror + course_section option) \<Rightarrow> date \<Rightarrow> nat list \<Rightarrow>
     event list" where
  "parse_timetable_text U crn_lookup today text =
     crn_loop crn_lookup today (findall5 (re_d U) text) []"

text \<open>The occurrences that one identifier contributes, taken by itself.\<close>

definition crn_events ::
  "('k \<Rightarrow> pyerror + course_section option) \<Rightarrow> date \<Rightarrow> 'k \<Rightarrow> event list" where
  "crn_events crn_lookup today crn = crn_loop crn_lookup today [crn] []"

text \<open>
  The specification's reading of the normaliser (section 4.4), written without the loops:
  the occurrences expected of one day letter, of one section and of one identifier.  A
  day letter that maps to a weekday gives one occurrence, on the next date of that
  weekday, when both time strings parse, and none otherwise.  A section gives the
  degenerate occurrence when its days are arranged, and otherwise the occurrences of its
  day letters, in order.  An identifier gives the occurrences of the section it resolves
  to, and none when the resolver raises or finds nothing.
\<close>

definition expected_day_occurrences :: "date \<Rightarrow> course_section \<Rightarrow> char \<Rightarrow> event list" where
  "expected_day_occurrences today sec d =
     (case day_map d of
        None \<Rightarrow> []
      | Some day_name \<Rightarrow>
          (case (get_next_weekday_date today day_name,
                 parse_time ucd_excerpt (cps (start_time sec)),
                 parse_time ucd_excerpt (cps (end_time sec))) of
             (Inr event_date, Some start_t, Some end_t) \<Rightarrow>
               [concrete_event sec day_name event_date start_t end_t]
           | _ \<Rightarrow> []))"

definition expected_section_occurrences :: "date \<Rightarrow> course_section \<Rightarrow> event list" where
  "expected_section_occurrences today sec =
     (if contains ''ARR'' (days sec) then [arranged_event sec]
      else concat (map (expected_day_occurrences today sec) (days sec)))"

definition expected_occurrences ::
  "('k \<Rightarrow> pyerror + course_section option) \<Rightarrow> date \<Rightarrow> 'k \<Rightarrow> event list" where
  "expected_occurrences crn_lookup today crn =
     (case crn_lookup crn of
        Inr (Some sec) \<Rightarrow> expected_section_occurrences today sec
      | _ \<Rightarrow> [])"

subsection \<open>The recurring event payload (create\_google\_event)\<close>

text \<open>\<^verbatim>\<open>event.get(k)\<close>, truthiness and the embedding of JSON values, on Python values.\<close>

definition pget :: "event \<Rightarrow> string \<Rightarrow> pyval" where
  "pget e k = (case e k of None \<Rightarrow> PyNone | Some v \<Rightarrow> v)"

fun ptruthy :: "pyval \<Rightarrow> bool" where
  "ptruthy PyNone = False"
| "ptruthy (PyBool b) = b"
| "ptruthy (PyStr s) = (s \<noteq> [])"
| "ptruthy (PyDatetime dt) = True"

fun of_json :: "jval \<Rightarrow> pyval" where
  "of_json JNull = PyNone"
| "of_json (JBool b) = PyBool b"
| "of_json (JStr s) = PyStr s"

text \<open>Sequencing of steps that can raise.\<close>

definition and_then :: "pyerror + 'a \<Rightarrow> ('a \<Rightarrow> pyerror + 'b) \<Rightarrow> pyerror + 'b" where
  "and_then r f = (case r of Inl e \<Rightarrow> Inl e | Inr v \<Rightarrow> f v)"

text \<open>\<^verbatim>\<open>event[k]\<close> raises \<^verbatim>\<open>KeyError\<close> on a missing key.\<close>

definition subscript :: "event \<Rightarrow> string \<Rightarrow> pyerror + pyval" where
  "subscript e k = (case e k of None \<Rightarrow> Inl KeyError | Some v \<Rightarrow> Inr v)"

text \<open>
  The attribute \<^verbatim>\<open>tzinfo\<close>, and with it \<^verbatim>\<open>time()\<close> and \<^verbatim>\<open>weekday()\<close>, exists on a
  \<^verbatim>\<open>datetime\<close> only; on any other value the access raises \<^verbatim>\<open>AttributeError\<close>.
\<close>

definition as_datetime :: "pyval \<Rightarrow> pyerror + datetime" where
  "as_datetime v = (case v of PyDatetime dt \<Rightarrow> Inr dt | _ \<Rightarrow> Inl AttributeError)"

text \<open>
  \<^verbatim>\<open>eastern.localize(dt)\<close> attaches the zone of New York to a naive \<^verbatim>\<open>datetime\<close>.  Whether
  daylight saving time holds at \<open>dt\<close> is read from the time-zone database, the parameter
  \<open>is_dst\<close>.
\<close>

definition localize :: "(datetime \<Rightarrow> bool) \<Rightarrow> datetime \<Rightarrow> datetime" where
  "localize is_dst dt = dt\<lparr>dt_tzinfo := Some (Eastern (is_dst dt))\<rparr>"

definition ensure_eastern :: "(datetime \<Rightarrow> bool) \<Rightarrow> datetime \<Rightarrow> datetime" where
  "ensure_eastern is_dst dt = (if dt_tzinfo dt = None then localize is_dst dt else dt)"

definition target_day_map :: "string \<rightharpoonup> int" where
  "target_day_map =
     map_of [(''Monday'', 0), (''Tuesday'', 1), (''Wednesday'', 2), (''Thursday'', 3),
             (''Friday'', 4), (''Saturday'', 5), (''Sunday'', 6)]"

text \<open>\<^verbatim>\<open>day_map.get(event.get('day'))\<close>: only a string can be one of the keys.\<close>

definition target_weekday :: "event \<Rightarrow> int option" where
  "target_weekday event = (case pget event ''day'' of PyStr s \<Rightarrow> target_day_map s | _ \<Rightarrow> None)"

text \<open>
  \<^verbatim>\<open>datetime.combine(next_occurrence, dt.time()).replace(tzinfo=dt.tzinfo)\<close>: the date is
  replaced, the time of day and the zone are kept.
\<close>

definition on_date :: "date \<Rightarrow> datetime \<Rightarrow> datetime" where
  "on_date d dt = (combine d (dt_time dt))\<lparr>dt_tzinfo := dt_tzinfo dt\<rparr>"

text \<open>Lines 186 to 197: the date of the target weekday, today included.\<close>

definition next_occurrence :: "date \<Rightarrow> int \<Rightarrow> pyerror + date" where
  "next_occurrence today target =
     (let current_weekday = weekday today;
          days_ahead = (target - current_weekday) mod 7
      in if days_ahead = 0 then Inr today else date_add today days_ahead)"

text \<open>
  \<^verbatim>\<open>strftime("%Y%m%dT%H%M%SZ")\<close> on the fields of a \<^verbatim>\<open>datetime\<close>, and the end of the
  semester, \<^verbatim>\<open>datetime(2025, 12, 14, 23, 59, 59, tzinfo=timezone.utc)\<close>.
\<close>

definition four_digits :: "nat \<Rightarrow> string" where
  "four_digits n =
     [digit_char (n div 1000), digit_char (n div 100 mod 10), digit_char (n div 10 mod 10),
      digit_char (n mod 10)]"

definition strftime_basic_utc :: "nat \<Rightarrow> nat \<Rightarrow> nat \<Rightarrow> time \<Rightarrow> string" where
  "strftime_basic_utc y m d t =
     four_digits y @ two_digits m @ two_digits d @ ''T'' @
     two_digits (hour t) @ two_digits (minute t) @ two_digits (second t) @ ''Z''"

definition end_date_str :: string where
  "end_date_str =
     strftime_basic_utc 2025 12 14 \<lparr>hour = 23, minute = 59, second = 59, microsecond = 0\<rparr>"

definition weekday_codes :: "string list" where
  "weekday_codes = [''MO'', ''TU'', ''WE'', ''TH'', ''FR'', ''SA'', ''SU'']"

text \<open>
  The payload.  The fields \<^verbatim>\<open>start.dateTime\<close> and \<^verbatim>\<open>end.dateTime\<close> carry
  \<^verbatim>\<open>isoformat()\<close> of the two \<^verbatim>\<open>datetime\<close> values; the model keeps the values themselves.
  An entry of \<^verbatim>\<open>reminders.overrides\<close> is its method and its minutes.
\<close>

record event_body =
  summary :: pyval
  body_location :: pyval
  start_dateTime :: datetime
  start_timeZone :: string
  end_dateTime :: datetime
  end_timeZone :: string
  recurrence :: "string list"
  reminders_useDefault :: bool
  reminders_overrides :: "(string \<times> nat) list"

text \<open>
  Lines 168 to 227 of \<^verbatim>\<open>create_google_event\<close>, everything between obtaining the service
  and the call of the service, in three steps: reading the two times (lines 172 to 183),
  moving them to the target weekday (lines 186 to 197) and building the payload (lines
  199 to 227).  \<open>today\<close> is \<^verbatim>\<open>datetime.now().date()\<close>.
\<close>

definition read_times :: "(datetime \<Rightarrow> bool) \<Rightarrow> event \<Rightarrow> pyerror + (datetime \<times> datetime)" where
  "read_times is_dst event =
     and_then (subscript event ''start_datetime'') (\<lambda>start_v.
     and_then (subscript event ''end_datetime'') (\<lambda>end_v.
     and_then (as_datetime start_v) (\<lambda>start_dt.
     and_then (as_datetime end_v) (\<lambda>end_dt.
       Inr (ensure_eastern is_dst start_dt, ensure_eastern is_dst end_dt)))))"

definition shift_to_target ::
  "date \<Rightarrow> event \<Rightarrow> (datetime \<times> datetime) \<Rightarrow> pyerror + (datetime \<times> datetime)" where
  "shift_to_target today event dts =
     (case target_weekday event of
        None \<Rightarrow> Inr dts
      | Some target \<Rightarrow>
          and_then (next_occurrence today target) (\<lambda>next_date.
            Inr (on_date next_date (fst dts), on_date next_date (snd dts))))"

definition payload :: "event \<Rightarrow> (datetime \<times> datetime) \<Rightarrow> pyerror + event_body" where
  "payload event dts =
     (let start_dt = fst dts;
          end_dt = snd dts;
          byday_code = weekday_codes ! nat (weekday (dt_date start_dt))
      in and_then (subscript event ''subject'') (\<lambda>subject.
           Inr \<lparr>summary = subject,
                body_location = (case event ''location'' of None \<Rightarrow> PyStr [] | Some v \<Rightarrow> v),
                start_dateTime = start_dt,
                start_timeZone = ''America/New_York'',
                end_dateTime = end_dt,
                end_timeZone = ''America/New_York'',
                recurrence =
                  [''RRULE:FREQ=WEEKLY;BYDAY='' @ byday_code @ '';UNTIL='' @ end_date_str],
                reminders_useDefault = False,
                reminders_overrides = [(''popup'', 15)]\<rparr>))"

definition event_body_of :: "(datetime \<Rightarrow> bool) \<Rightarrow> date \<Rightarrow> event \<Rightarrow> pyerror + event_body" where
  "event_body_of is_dst today event =
     and_then (read_times is_dst event) (\<lambda>dts.
     and_then (shift_to_target today event dts) (payload event))"

text \<open>
  The calendar service is outside the program.  \<open>'w\<close> is the state of the world it lives
  in; \<open>get_service\<close> stands for \<^verbatim>\<open>get_calendar_service()\<close> (it may raise) and
  \<open>insert_event\<close> for \<^verbatim>\<open>service.events().insert(calendarId='primary',
  body=event_body).execute()\<close> followed by \<^verbatim>\<open>.get('id')\<close>: it raises or returns the
  identifier of the created event.
\<close>

record 'w calendar =
  get_service :: "'w \<Rightarrow> 'w \<times> pyerror option"
  insert_event :: "'w \<Rightarrow> event_body \<Rightarrow> 'w \<times> (pyerror + pyval)"

record creation_result =
  status :: string
  event_id :: pyval

definition create_google_event ::
  "'w calendar \<Rightarrow> (datetime \<Rightarrow> bool) \<Rightarrow> date \<Rightarrow> 'w \<Rightarrow> event \<Rightarrow> 'w \<times> (pyerror + creation_result)" where
  "create_google_event cal is_dst today w event =
     (case get_service cal w of
        (w1, Some e) \<Rightarrow> (w1, Inl e)
      | (w1, None) \<Rightarrow>
          (case event_body_of is_dst today event of
             Inl e \<Rightarrow> (w1, Inl e)
           | Inr body \<Rightarrow>
               (case insert_event cal w1 body of
                  (w2, Inl e) \<Rightarrow> (w2, Inl e)
                | (w2, Inr created_id) \<Rightarrow>
                    (w2, Inr \<lparr>status = ''success'', event_id = created_id\<rparr>))))"

subsection \<open>Batch submission (create\_events\_in\_calendar, second loop)\<close>

text \<open>
  Lines 284 to 287: a start or end that is a string is replaced by the \<^verbatim>\<open>datetime\<close> that
  \<^verbatim>\<open>datetime.fromisoformat\<close> reads from it.  The library parser is the parameter
  \<open>fromisoformat\<close>; it raises \<^verbatim>\<open>ValueError\<close> on a string it cannot read.
\<close>

definition convert_field ::
  "(string \<Rightarrow> pyerror + datetime) \<Rightarrow> string \<Rightarrow> event \<Rightarrow> pyerror + event" where
  "convert_field fromisoformat k event =
     (case pget event k of
        PyStr s \<Rightarrow> and_then (fromisoformat s) (\<lambda>dt. Inr (event(k \<mapsto> PyDatetime dt)))
      | _ \<Rightarrow> Inr event)"

definition convert_datetimes ::
  "(string \<Rightarrow> pyerror + datetime) \<Rightarrow> jevent \<Rightarrow> pyerror + event" where
  "convert_datetimes fromisoformat e =
     and_then (convert_field fromisoformat ''start_datetime'' (map_option of_json \<circ> e))
       (convert_field fromisoformat ''end_datetime'')"

text \<open>
  The body of the loop for one event.  It returns the world and \<^verbatim>\<open>creation_results\<close> as
  they are after the iteration.  Every exception is caught by the handler of line 298,
  which goes on to the next event.  After a successful creation the debug print of line
  296 reads \<^verbatim>\<open>event['subject']\<close> and \<^verbatim>\<open>event['day']\<close>: a missing key raises
  \<^verbatim>\<open>KeyError\<close> there, before the result is appended.
\<close>

definition submit_one ::
  "'w calendar \<Rightarrow> (string \<Rightarrow> pyerror + datetime) \<Rightarrow> (datetime \<Rightarrow> bool) \<Rightarrow> date \<Rightarrow>
     'w \<Rightarrow> creation_result list \<Rightarrow> jevent \<Rightarrow> 'w \<times> creation_result list" where
  "submit_one cal fromisoformat is_dst today w creation_results e =
     (case convert_datetimes fromisoformat e of
        Inl err \<Rightarrow> (w, creation_results)
      | Inr event \<Rightarrow>
          if ptruthy (pget event ''start_datetime'') \<and> ptruthy (pget event ''end_datetime'')
          then
            (case create_google_event cal is_dst today w event of
               (w', Inl err) \<Rightarrow> (w', creation_results)
             | (w', Inr result) \<Rightarrow>
                 (case and_then (subscript event ''subject'') (\<lambda>_. subscript event ''day'') of
                    Inl err \<Rightarrow> (w', creation_results)
                  | Inr _ \<Rightarrow> (w', creation_results @ [result])))
          else (w, creation_results))"

fun submit_loop ::
  "'w calendar \<Rightarrow> (string \<Rightarrow> pyerror + datetime) \<Rightarrow> (datetime \<Rightarrow> bool) \<Rightarrow> date \<Rightarrow>
     'w \<Rightarrow> creation_result list \<Rightarrow> jevent list \<Rightarrow> 'w \<times> creation_result list" where
  "submit_loop cal fromisoformat is_dst today w creation_results [] = (w, creation_results)"
| "submit_loop cal fromisoformat is_dst today w creation_results (e # es) =
     (case submit_one cal fromisoformat is_dst today w creation_results e of
        (w', creation_results') \<Rightarrow>
          submit_loop cal fromisoformat is_dst today w' creation_results' es)"

text \<open>\<^verbatim>\<open>str(n)\<close> for a length.\<close>

function str_nat :: "nat \<Rightarrow> string" where
  "str_nat n = (if n < 10 then [digit_char n] else str_nat (n div 10) @ [digit_char (n mod 10)])"
  by pat_completeness auto
termination
  by (relation "measure id") auto

record response =
  results :: "creation_result list"
  message :: string

definition create_events_in_calendar ::
  "'w calendar \<Rightarrow> (string \<Rightarrow> pyerror + datetime) \<Rightarrow> (datetime \<Rightarrow> bool) \<Rightarrow> date \<Rightarrow>
     'w \<Rightarrow> jevent list \<Rightarrow> 'w \<times> response" where
  "create_events_in_calendar cal fromisoformat is_dst today w events =
     (case submit_loop cal fromisoformat is_dst today w [] (dedup events) of
        (w', creation_results) \<Rightarrow>
          (w', \<lparr>results = creation_results,
                message = ''Created '' @ str_nat (length creation_results) @
                  '' recurring events in Google Calendar.''\<rparr>))"

text \<open>
  The specification's vocabulary: an event of the submission set lacks a start or an end
  when the key is absent or its value is null.
\<close>

definition lacks_datetime :: "jevent \<Rightarrow> bool" where
  "lacks_datetime e =
     (jget e ''start_datetime'' = JNull \<or> jget e ''end_datetime'' = JNull)"

text \<open>
  A calendar that is always available and accepts every event: its state is the list of
  the payloads it has stored, and it gives every created event the same identifier.
\<close>

definition accepting_calendar :: "event_body list calendar" where
  "accepting_calendar =
     \<lparr>get_service = (\<lambda>w. (w, None)),
      insert_event = (\<lambda>w body. (w @ [body], Inr (PyStr ''created'')))\<rparr>"

text \<open>
  Two values of \<^verbatim>\<open>datetime.fromisoformat\<close>, for the examples below: 2025-09-01, a Monday,
  has ordinal 739495.  The sample reads no other string.
\<close>

definition fromisoformat_sample :: "string \<Rightarrow> pyerror + datetime" where
  "fromisoformat_sample s =
     (if s = ''2025-09-01T09:00:00''
      then Inr \<lparr>dt_date = Date 739495,
                dt_time = \<lparr>hour = 9, minute = 0, second = 0, microsecond = 0\<rparr>,
                dt_tzinfo = None\<rparr>
      else if s = ''2025-09-01T09:50:00''
      then Inr \<lparr>dt_date = Date 739495,
                dt_time = \<lparr>hour = 9, minute = 50, second = 0, microsecond = 0\<rparr>,
                dt_tzinfo = None\<rparr>
      else Inl ValueError)"

section \<open>Properties\<close>

subsection \<open>The excerpt of the database\<close>

lemma ucd_excerpt_simps [simp]:
  "decimal ucd_excerpt c =
     (if 48 \<le> c \<and> c \<le> 57 then Some (c - 48)
      else if 1632 \<le> c \<and> c \<le> 1641 then Some (c - 1632) else None)"
  "uppercase ucd_excerpt c =
     (if 97 \<le> c \<and> c \<le> 122 then [c - 32]
      else if c = 181 then [924]
      else if c = 223 then [83, 83]
      else if 224 \<le> c \<and> c \<le> 254 \<and> c \<noteq> 247 then [c - 32]
      else if c = 255 then [376]
      else [c])"
  by (simp_all add: ucd_excerpt_def)

lemma ucd_excerpt_ascii: "ascii_decimals ucd_excerpt"
  by (auto simp: ascii_decimals_def split: if_splits)

lemma cps_lits:
  "cps '':'' = [58]" "cps ''am'' = [97, 109]" "cps ''pm'' = [112, 109]"
  "cps ''AM'' = [65, 77]" "cps ''PM'' = [80, 77]"
  by (simp_all add: cps_def)

subsection \<open>Deduplication\<close>

lemma dedup_loop_append:
  "dedup_loop u (xs @ ys) = dedup_loop (dedup_loop u xs) ys"
  by (induction xs arbitrary: u) (simp_all add: Let_def)

lemma dedup_loop_keys:
  "fst ` set (dedup_loop u xs) = fst ` set u \<union> dedup_key ` set xs"
proof (induction xs arbitrary: u)
  case Nil
  then show ?case by simp
next
  case (Cons x xs)
  have "map_of u (dedup_key x) \<noteq> None \<Longrightarrow> dedup_key x \<in> fst ` set u"
    by (simp add: map_of_eq_None_iff)
  then show ?case
    using Cons.IH by (auto simp: Let_def)
qed

lemma dedup_loop_fst:
  "map fst u = map (dedup_key \<circ> snd) u \<Longrightarrow>
   map fst (dedup_loop u xs) = map (dedup_key \<circ> snd) (dedup_loop u xs)"
proof (induction xs arbitrary: u)
  case Nil
  then show ?case by simp
next
  case (Cons x xs)
  have "map fst (u @ [(dedup_key x, x)]) = map (dedup_key \<circ> snd) (u @ [(dedup_key x, x)])"
    using Cons.prems by simp
  then show ?case
    using Cons.IH [of u] Cons.IH [of "u @ [(dedup_key x, x)]"] Cons.prems
    by (simp add: Let_def)
qed

lemma dedup_map_key: "map dedup_key (dedup X) = map fst (dedup_loop [] X)"
  using dedup_loop_fst [of "[]" X] by (simp add: dedup_def)

lemma dedup_snoc:
  "dedup (xs @ [x]) =
     (if dedup_key x \<in> dedup_key ` set xs then dedup xs else dedup xs @ [x])"
proof -
  have keys: "fst ` set (dedup_loop [] xs) = dedup_key ` set xs"
    by (simp add: dedup_loop_keys)
  have "map_of (dedup_loop [] xs) (dedup_key x) = None \<longleftrightarrow> dedup_key x \<notin> dedup_key ` set xs"
    unfolding map_of_eq_None_iff keys ..
  then show ?thesis
    by (simp add: dedup_def dedup_loop_append Let_def)
qed

lemma first_occurrences_snoc:
  "first_occurrences (xs @ [x]) =
     (if dedup_key x \<in> dedup_key ` set xs then first_occurrences xs
      else first_occurrences xs @ [x])"
proof -
  let ?n = "length xs"
  let ?P = "\<lambda>X i. list_all (\<lambda>j. dedup_key (X ! j) \<noteq> dedup_key (X ! i)) [0..<i]"
  have old: "?P (xs @ [x]) i = ?P xs i" if "i < ?n" for i
    using that by (simp add: list_all_iff nth_append)
  have "filter (?P (xs @ [x])) [0..<?n] = filter (?P xs) [0..<?n]"
    by (rule filter_cong) (simp_all add: old)
  moreover have "map (\<lambda>i. (xs @ [x]) ! i) (filter (?P xs) [0..<?n])
      = map (\<lambda>i. xs ! i) (filter (?P xs) [0..<?n])"
    by (rule map_cong) (auto simp: nth_append)
  moreover have "?P (xs @ [x]) ?n \<longleftrightarrow> dedup_key x \<notin> dedup_key ` set xs"
  proof -
    have "?P (xs @ [x]) ?n \<longleftrightarrow> (\<forall>j<?n. dedup_key (xs ! j) \<noteq> dedup_key x)"
      by (auto simp: list_all_iff nth_append)
    also have "\<dots> \<longleftrightarrow> (\<forall>y\<in>set xs. dedup_key y \<noteq> dedup_key x)"
      by (simp add: all_set_conv_all_nth)
    also have "\<dots> \<longleftrightarrow> dedup_key x \<notin> dedup_key ` set xs"
      by (simp add: image_iff) metis
    finally show ?thesis .
  qed
  ultimately show ?thesis
    by (simp add: first_occurrences_def)
qed

lemma dedup_first_occurrences: "dedup X = first_occurrences X"
proof (induction X rule: rev_induct)
  case Nil
  show ?case by (simp add: dedup_def first_occurrences_def)
next
  case (snoc x xs)
  then show ?case by (simp add: dedup_snoc first_occurrences_snoc)
qed

lemma dedup_keys: "dedup_key ` set (dedup X) = dedup_key ` set X"
proof -
  have "dedup_key ` set (dedup X) = set (map dedup_key (dedup X))"
    by simp
  also have "\<dots> = fst ` set (dedup_loop [] X)"
    unfolding dedup_map_key by simp
  also have "\<dots> = dedup_key ` set X"
    by (simp add: dedup_loop_keys)
  finally show ?thesis .
qed

lemma dedup_Nil: "dedup [] = []"
  by (simp add: dedup_def)

lemma dedup_length: "length (dedup X) \<le> length X"
  by (induction X rule: rev_induct) (simp_all add: dedup_snoc dedup_Nil)

lemma dedup_distinct_id: "distinct (map dedup_key X) \<Longrightarrow> dedup X = X"
  by (induction X rule: rev_induct) (simp_all add: dedup_snoc dedup_Nil)

lemma dedup_keys_distinct: "distinct (map dedup_key (dedup X))"
proof (induction X rule: rev_induct)
  case Nil
  show ?case by (simp add: dedup_def)
next
  case (snoc x xs)
  then show ?case by (simp add: dedup_snoc dedup_keys)
qed


text \<open>
  C3.  Deduplication keeps, for each distinct \<open>dedup_key\<close>, the first item carrying it,
  in input order (the survivors are exactly the items with no earlier item of equal
  key, so their keys are pairwise distinct); deduplicating twice is deduplicating once;
  and the result is never longer than the input.
\<close>

theorem dedup_first_seen_idempotent_shrinking:
  "dedup X = first_occurrences X \<and>
   distinct (map dedup_key (dedup X)) \<and>
   dedup (dedup X) = dedup X \<and>
   length (dedup X) \<le> length X"
  by (simp add: dedup_first_occurrences [symmetric] dedup_keys_distinct dedup_distinct_id
      dedup_length)

theorem dedup_first_seen_idempotent_shrinking_witness:
  "dedup [[''subject'' \<mapsto> JStr ''A''], [''subject'' \<mapsto> JStr ''B''],
          [''subject'' \<mapsto> JStr ''A'', ''needs_days_input'' \<mapsto> JBool True]]
     = [[''subject'' \<mapsto> JStr ''A''], [''subject'' \<mapsto> JStr ''B'']] \<and>
   dedup (dedup [[''subject'' \<mapsto> JStr ''A''], [''subject'' \<mapsto> JStr ''B''],
          [''subject'' \<mapsto> JStr ''A'', ''needs_days_input'' \<mapsto> JBool True]])
     = [[''subject'' \<mapsto> JStr ''A''], [''subject'' \<mapsto> JStr ''B'']]"
proof -
  let ?X = "[[''subject'' \<mapsto> JStr ''A''], [''subject'' \<mapsto> JStr ''B''],
          [''subject'' \<mapsto> JStr ''A'', ''needs_days_input'' \<mapsto> JBool True]]"
  have d: "dedup ?X = [[''subject'' \<mapsto> JStr ''A''], [''subject'' \<mapsto> JStr ''B'']]"
    by (simp add: dedup_def dedup_key_def jget_def jor_def)
  from dedup_first_seen_idempotent_shrinking [of ?X]
  have "dedup (dedup ?X) = dedup ?X" by blast
  with d show ?thesis by simp
qed

subsection \<open>Identifier extraction\<close>

declare blocks5.simps [simp del]

lemma findall5_skip:
  "\<not> (5 \<le> length (c # cs) \<and> list_all d (take 5 (c # cs))) \<Longrightarrow>
   findall5 d (c # cs) = findall5 d cs"
  by (simp only: findall5.simps if_False)

lemma findall5_short:
  "length r < 5 \<Longrightarrow> rest = [] \<or> \<not> d (hd rest) \<Longrightarrow> findall5 d (r @ rest) = findall5 d rest"
proof (induction r)
  case Nil
  then show ?case by simp
next
  case (Cons c cs)
  have "\<not> (5 \<le> length (c # cs @ rest) \<and> list_all d (take 5 (c # cs @ rest)))"
  proof (cases rest)
    case Nil
    with Cons.prems show ?thesis by simp
  next
    case (Cons x rest')
    with Cons.prems(2) have "\<not> d x" by simp
    moreover have "x \<in> set (take 5 (c # cs @ rest))"
      using Cons.prems(1) Cons by (auto simp: take_Cons' in_set_conv_nth)
    ultimately show ?thesis by (auto simp: list_all_iff)
  qed
  then have "findall5 d (c # cs @ rest) = findall5 d (cs @ rest)"
    by (rule findall5_skip)
  then show ?case using Cons.IH Cons.prems by simp
qed

lemma findall5_run:
  "list_all d r \<Longrightarrow> rest = [] \<or> \<not> d (hd rest) \<Longrightarrow>
   findall5 d (r @ rest) = blocks5 r @ findall5 d rest"
proof (induction r rule: blocks5.induct)
  case (1 r)
  show ?case
  proof (cases "5 \<le> length r")
    case True
    then obtain c cs where r: "r = c # cs" by (cases r) auto
    have t: "take 5 (r @ rest) = take 5 r" using True by simp
    have "list_all d (take 5 r)" using "1.prems"(1) by (auto simp: list_all_iff dest: in_set_takeD)
    moreover have "drop 4 (cs @ rest) = drop 5 r @ rest" using True r by simp
    moreover have "list_all d (drop 5 r)" using "1.prems"(1) by (auto simp: list_all_iff dest: in_set_dropD)
    ultimately show ?thesis
      using "1.IH" [OF True] "1.prems"(2) True r t
      by (simp add: blocks5.simps [of "c # cs"])
  next
    case False
    then show ?thesis
      using findall5_short [of r rest d] "1.prems"(2) by (simp add: blocks5.simps [of r])
  qed
qed

lemma findall5_blocks: "findall5 d t = concat (map blocks5 (digit_runs d t))"
proof (induction d t rule: digit_runs.induct)
  case (1 d)
  show ?case by simp
next
  case (2 d c cs)
  show ?case
  proof (cases "d c")
    case True
    let ?r = "takeWhile d (c # cs)" and ?rest = "dropWhile d cs"
    have split: "c # cs = ?r @ ?rest" using True by simp
    have "list_all d ?r" by (auto simp: list_all_iff dest: set_takeWhileD)
    moreover have "?rest = [] \<or> \<not> d (hd ?rest)"
      using hd_dropWhile [of d cs] by blast
    ultimately have "findall5 d (?r @ ?rest) = blocks5 ?r @ findall5 d ?rest"
      by (rule findall5_run)
    then show ?thesis using "2.IH"(1) [OF True] True split by (simp del: findall5.simps takeWhile.simps) 
  next
    case False
    then show ?thesis using "2.IH"(2) by simp
  qed
qed

lemma length_blocks5: "length (blocks5 r) = length r div 5"
proof (induction r rule: blocks5.induct)
  case (1 r)
  show ?case
  proof (cases "5 \<le> length r")
    case True
    then show ?thesis using "1.IH" by (simp add: blocks5.simps [of r] le_div_geq)
  next
    case False
    then show ?thesis by (simp add: blocks5.simps [of r])
  qed
qed

lemma blocks5_le5: "length r \<le> 5 \<Longrightarrow> blocks5 r = (if length r = 5 then [r] else [])"
  by (simp add: blocks5.simps [of r] blocks5.simps [of "[]"])

lemma concat_blocks_le5:
  "list_all (\<lambda>r. length r \<le> 5) rs \<Longrightarrow> concat (map blocks5 rs) = filter (\<lambda>r. length r = 5) rs"
  by (induction rs) (simp_all add: blocks5_le5)

lemma length_concat_blocks5:
  "length (concat (map blocks5 rs)) = sum_list (map (\<lambda>r. length r div 5) rs)"
  by (induction rs) (simp_all add: length_blocks5)

text \<open>
  C1, as amended.  The extractor returns, for each maximal run of digits of the text in
  order of occurrence, the successive blocks of five digits of the run, counted from its
  left end: a run of \<open>n\<close> digits gives \<open>n div 5\<close> identifiers and its last \<open>n mod 5\<close> digits give
  none.  Hence a run of exactly five digits gives itself and a run of ten digits gives
  two identifiers.  When no run of the text is longer than five digits, the output is the
  list of the maximal runs of exactly five digits.
\<close>

theorem findall5_blocks_of_digit_runs:
  "findall5 d text = concat (map blocks5 (digit_runs d text)) \<and>
   length (findall5 d text) = sum_list (map (\<lambda>r. length r div 5) (digit_runs d text)) \<and>
   (list_all (\<lambda>r. length r \<le> 5) (digit_runs d text) \<longrightarrow>
      findall5 d text = maximal_runs_of_5 d text)"
  by (simp add: findall5_blocks length_concat_blocks5 concat_blocks_le5 maximal_runs_of_5_def)

theorem findall5_blocks_of_digit_runs_witness:
  "list_all (\<lambda>r. length r \<le> 5) (digit_runs (re_d ucd_excerpt) (cps ''83538 12 83538'')) \<and>
   findall5 (re_d ucd_excerpt) (cps ''83538 12 83538'') =
     maximal_runs_of_5 (re_d ucd_excerpt) (cps ''83538 12 83538'') \<and>
   maximal_runs_of_5 (re_d ucd_excerpt) (cps ''83538 12 83538'') = [cps ''83538'', cps ''83538''] \<and>
   findall5 (re_d ucd_excerpt) (cps ''a1234567890b1234567'') =
     concat (map blocks5 (digit_runs (re_d ucd_excerpt) (cps ''a1234567890b1234567''))) \<and>
   digit_runs (re_d ucd_excerpt) (cps ''a1234567890b1234567'') =
     [cps ''1234567890'', cps ''1234567''] \<and>
   length (findall5 (re_d ucd_excerpt) (cps ''a1234567890b1234567'')) = 3 \<and>
   findall5 (re_d ucd_excerpt) ([1633, 1634, 1635, 1636, 1637] @ cps '' 12345x'') =
     [[1633, 1634, 1635, 1636, 1637], cps ''12345'']"
proof -
  let ?d = "re_d ucd_excerpt"
  have runs: "digit_runs ?d (cps ''83538 12 83538'') = [cps ''83538'', cps ''12'', cps ''83538'']"
    by (simp add: re_d_def cps_def)
  have small: "list_all (\<lambda>r. length r \<le> 5) (digit_runs ?d (cps ''83538 12 83538''))"
    unfolding runs by (simp add: cps_def)
  have runs2: "digit_runs ?d (cps ''a1234567890b1234567'') = [cps ''1234567890'', cps ''1234567'']"
    by (simp add: re_d_def cps_def)
  have "length (findall5 ?d (cps ''a1234567890b1234567'')) =
      sum_list (map (\<lambda>r. length r div 5) (digit_runs ?d (cps ''a1234567890b1234567'')))"
    using findall5_blocks_of_digit_runs [of ?d "cps ''a1234567890b1234567''"] by blast
  then have "length (findall5 ?d (cps ''a1234567890b1234567'')) = 3"
    unfolding runs2 by (simp add: cps_def)
  moreover have "findall5 ?d (cps ''a1234567890b1234567'') =
     concat (map blocks5 (digit_runs ?d (cps ''a1234567890b1234567'')))"
    using findall5_blocks_of_digit_runs [of ?d "cps ''a1234567890b1234567''"] by blast
  moreover have "findall5 ?d (cps ''83538 12 83538'') =
      maximal_runs_of_5 ?d (cps ''83538 12 83538'')"
    using findall5_blocks_of_digit_runs [of ?d "cps ''83538 12 83538''"] small by blast
  moreover have "maximal_runs_of_5 ?d (cps ''83538 12 83538'') = [cps ''83538'', cps ''83538'']"
    unfolding maximal_runs_of_5_def runs by (simp add: cps_def)
  moreover have "findall5 ?d ([1633, 1634, 1635, 1636, 1637] @ cps '' 12345x'') =
     [[1633, 1634, 1635, 1636, 1637], cps ''12345'']"
    by (simp add: re_d_def cps_def)
  ultimately show ?thesis using small runs2 by simp
qed

text \<open>
  C1 as stated fails: of a run of six digits the extractor returns the first five, which
  are not a maximal run of exactly five digits; of a run of ten digits it returns two
  identifiers, although the text has no maximal run of exactly five digits.
\<close>

theorem findall5_not_maximal_runs_counterexample:
  "findall5 (re_d ucd_excerpt) (cps ''123456'') = [cps ''12345''] \<and>
   maximal_runs_of_5 (re_d ucd_excerpt) (cps ''123456'') = [] \<and>
   findall5 (re_d ucd_excerpt) (cps ''1234567890'') = [cps ''12345'', cps ''67890''] \<and>
   maximal_runs_of_5 (re_d ucd_excerpt) (cps ''1234567890'') = []"
  by (simp add: maximal_runs_of_5_def re_d_def cps_def)

subsection \<open>Weekday resolution\<close>

lemma index_of_Some: "index_of xs x = Some i \<Longrightarrow> i < length xs \<and> xs ! i = x"
  by (induction xs arbitrary: i) (auto split: if_splits)

lemma weekday_range: "0 \<le> weekday d \<and> weekday d < 7"
  by (simp add: weekday_def)

lemma days_ahead_arith:
  fixes i w ord :: int
  assumes "0 \<le> i" "i < 7" "0 \<le> w" "w < 7" "w = (ord + 6) mod 7"
  defines "k \<equiv> (if w = i then 7 else (i - w) mod 7)"
  shows "1 \<le> k" "k \<le> 7" "(ord + k + 6) mod 7 = i"
    "(if (i - w + 7) mod 7 = 0 then 7 else (i - w + 7) mod 7) = k"
proof -
  have i: "i = 0 \<or> i = 1 \<or> i = 2 \<or> i = 3 \<or> i = 4 \<or> i = 5 \<or> i = 6"
    using assms(1,2) by arith
  have w: "w = 0 \<or> w = 1 \<or> w = 2 \<or> w = 3 \<or> w = 4 \<or> w = 5 \<or> w = 6"
    using assms(3,4) by arith
  show "1 \<le> k" using i w unfolding k_def by auto
  show "k \<le> 7" using i w unfolding k_def by auto
  show "(if (i - w + 7) mod 7 = 0 then 7 else (i - w + 7) mod 7) = k"
    using i w unfolding k_def by auto
  show "(ord + k + 6) mod 7 = i"
  proof -
    have "ord + k + 6 = (ord + 6) + k" by simp
    then have "(ord + k + 6) mod 7 = ((ord + 6) mod 7 + k mod 7) mod 7"
      by (simp only: mod_add_eq)
    also have "k mod 7 = (i - w) mod 7" unfolding k_def by simp
    also have "((ord + 6) mod 7 + (i - w) mod 7) mod 7 = (w + (i - w)) mod 7"
      unfolding assms(5) by (simp add: mod_simps)
    also have "\<dots> = i" using assms(1,2) by simp
    finally show ?thesis .
  qed
qed


text \<open>
  C2, as amended.  For a weekday name that \<^verbatim>\<open>days_of_week\<close> knows (after lowering) and a
  reference date, the target is \<open>k\<close> days after the reference date, where \<open>k\<close> is 7 when
  the name is the weekday of the reference date and otherwise the distance to the next
  such weekday; \<open>k\<close> lies between 1 and 7 and the target falls on the named weekday.  The
  function returns the target when it is a date (not after 9999-12-31) and raises
  \<^verbatim>\<open>OverflowError\<close> otherwise.  For an unknown name it returns the reference date.
\<close>

theorem next_weekday_date_in_range:
  assumes "valid_date today"
  shows "case index_of days_of_week (lower day_name) of
           None \<Rightarrow> get_next_weekday_date today day_name = Inr today
         | Some i \<Rightarrow>
             (let k = (if weekday today = int i then 7 else (int i - weekday today) mod 7) in
              1 \<le> k \<and> k \<le> 7 \<and>
              (toordinal today + k + 6) mod 7 = int i \<and>
              get_next_weekday_date today day_name =
                (if toordinal today + k \<le> MAXORDINAL then Inr (Date (toordinal today + k))
                 else Inl OverflowError))"
proof (cases "index_of days_of_week (lower day_name)")
  case None
  then show ?thesis by (simp add: get_next_weekday_date_def)
next
  case (Some i)
  then have "i < length days_of_week" by (simp add: index_of_Some)
  then have i: "int i < 7" by (simp add: days_of_week_def)
  define w where "w = weekday today"
  define k where "k = (if w = int i then 7 else (int i - w) mod 7)"
  have w: "0 \<le> w" "w < 7" "w = (toordinal today + 6) mod 7"
    by (simp_all add: w_def weekday_def)
  note ar = days_ahead_arith [OF _ i w, folded k_def]
  have k1: "1 \<le> k" "k \<le> 7" and k2: "(toordinal today + k + 6) mod 7 = int i"
    and k3: "(if (int i - w + 7) mod 7 = 0 then 7 else (int i - w + 7) mod 7) = k"
    using ar by simp_all
  have pos: "0 < toordinal today + k" using assms k1 by (simp add: valid_date_def)
  have "get_next_weekday_date today day_name = date_add today k"
    using k3 unfolding get_next_weekday_date_def Some Let_def w_def [symmetric]
    by (auto split: if_splits)
  then have "get_next_weekday_date today day_name =
      (if toordinal today + k \<le> MAXORDINAL then Inr (Date (toordinal today + k))
       else Inl OverflowError)"
    using pos by (simp add: date_add_def Let_def)
  moreover have keq: "(if weekday today = int i then 7 else (int i - weekday today) mod 7) = k"
    by (simp add: k_def w_def)
  ultimately show ?thesis
    unfolding Some option.case Let_def keq using k1 k2 by (intro conjI)
qed

theorem next_weekday_date_in_range_witness:
  "valid_date (Date 739495) \<and> weekday (Date 739495) = 0 \<and>
   get_next_weekday_date (Date 739495) ''Monday'' = Inr (Date (739495 + 7)) \<and>
   get_next_weekday_date (Date 739495) ''Wednesday'' = Inr (Date (739495 + 2)) \<and>
   get_next_weekday_date (Date 739495) ''Funday'' = Inr (Date 739495)"
proof -
  have v: "valid_date (Date 739495)"
    by (simp add: valid_date_def MAXORDINAL_def)
  have mo: "index_of days_of_week (lower ''Monday'') = Some 0"
    by (simp add: lower_def lower_char_def days_of_week_def)
  have we: "index_of days_of_week (lower ''Wednesday'') = Some 2"
    by (simp add: lower_def lower_char_def days_of_week_def)
  have fu: "index_of days_of_week (lower ''Funday'') = None"
    by (simp add: lower_def lower_char_def days_of_week_def)
  have "get_next_weekday_date (Date 739495) ''Monday'' = Inr (Date (739495 + 7))"
    using next_weekday_date_in_range [OF v, of "''Monday''"] unfolding mo
    by (simp add: weekday_def MAXORDINAL_def)
  moreover have "get_next_weekday_date (Date 739495) ''Wednesday'' = Inr (Date (739495 + 2))"
    using next_weekday_date_in_range [OF v, of "''Wednesday''"] unfolding we
    by (simp add: weekday_def MAXORDINAL_def)
  moreover have "get_next_weekday_date (Date 739495) ''Funday'' = Inr (Date 739495)"
    using next_weekday_date_in_range [OF v, of "''Funday''"] unfolding fu by simp
  ultimately show ?thesis using v by (simp add: weekday_def)
qed

text \<open>
  C2 as stated fails on the last dates of the calendar: 9999-12-31 (ordinal 3652059) is a
  Friday, no date lies seven days after it, and the addition raises.
\<close>

theorem next_weekday_date_overflow_counterexample:
  "valid_date (Date 3652059) \<and> weekday (Date 3652059) = 4 \<and>
   index_of days_of_week (lower ''Friday'') = Some 4 \<and>
   get_next_weekday_date (Date 3652059) ''Friday'' = Inl OverflowError"
proof -
  have fr: "index_of days_of_week (lower ''Friday'') = Some 4"
    by (simp add: lower_def lower_char_def days_of_week_def)
  have "get_next_weekday_date (Date 3652059) ''Friday'' = Inl OverflowError"
    unfolding get_next_weekday_date_def fr
    by (simp add: weekday_def date_add_def MAXORDINAL_def)
  then show ?thesis
    using fr by (simp add: valid_date_def weekday_def MAXORDINAL_def)
qed

subsection \<open>Time parsing\<close>

lemma cls_iff:
  "cls ''2'' c \<longleftrightarrow> c = 50"
  "cls ''0123'' c \<longleftrightarrow> 48 \<le> c \<and> c \<le> 51"
  "cls ''01'' c \<longleftrightarrow> 48 \<le> c \<and> c \<le> 49"
  "cls ''1'' c \<longleftrightarrow> c = 49"
  "cls ''012'' c \<longleftrightarrow> 48 \<le> c \<and> c \<le> 50"
  "cls ''0'' c \<longleftrightarrow> c = 48"
  "cls ''123456789'' c \<longleftrightarrow> 49 \<le> c \<and> c \<le> 57"
  "cls ''012345'' c \<longleftrightarrow> 48 \<le> c \<and> c \<le> 53"
  "cls '':'' c \<longleftrightarrow> c = 58"
  "cls ''aA'' c \<longleftrightarrow> c = 97 \<or> c = 65"
  "cls ''mM'' c \<longleftrightarrow> c = 109 \<or> c = 77"
  "cls ''pP'' c \<longleftrightarrow> c = 112 \<or> c = 80"
  unfolding cls_def cps_def by (simp_all, arith+)

lemma dec_ascii:
  "ascii_decimals U \<Longrightarrow> c < 128 \<Longrightarrow>
     decimal U c = (if 48 \<le> c \<and> c \<le> 57 then Some (c - 48) else None)"
  by (simp add: ascii_decimals_def)

lemma dec_lt: "ascii_decimals U \<Longrightarrow> decimal U c = Some d \<Longrightarrow> d < 10"
  by (auto simp: ascii_decimals_def)

lemma dec_ascii_digit: "ascii_decimals U \<Longrightarrow> ascii_digit a \<Longrightarrow> decimal U a = Some (a - 48)"
  using dec_ascii [of U a] by (simp add: ascii_digit_def)

lemma dec_is_ascii:
  "ascii_decimals U \<Longrightarrow> decimal U b = Some d \<Longrightarrow> b < 128 \<Longrightarrow> b = 48 + d \<and> ascii_digit b"
  using dec_ascii [of U b] by (auto simp: ascii_digit_def split: if_splits)

lemma dec_not_letter:
  assumes "ascii_decimals U" "decimal U c = Some d"
  shows "c \<noteq> 58" "c \<noteq> 65" "c \<noteq> 97" "c \<noteq> 80" "c \<noteq> 112" "c \<noteq> 77" "c \<noteq> 109"
  using assms dec_ascii [of U c] by (auto split: if_splits)

lemma re_d_iff: "re_d U c \<longleftrightarrow> (\<exists>d. decimal U c = Some d)"
  by (simp add: re_d_def)

lemma one_of_set:
  "(w, r) \<in> set (one_of P s) \<longleftrightarrow> (\<exists>c. P c \<and> w = [c] \<and> s = c # r)"
  by (auto simp: one_of_def split: list.splits)

lemma seq_m_set:
  "(w, r) \<in> set (seq_m p q s) \<longleftrightarrow>
     (\<exists>a b r1. (a, r1) \<in> set (p s) \<and> (b, r) \<in> set (q r1) \<and> w = a @ b)"
  by (force simp: seq_m_def)

lemma alt_m_set: "set (alt_m p q s) = set (p s) \<union> set (q s)"
  by (simp add: alt_m_def)

lemma int_of_one: "decimal U c = Some d \<Longrightarrow> int_of U [c] = Inr d"
  by (simp add: int_of_def)

lemma int_of_two:
  "decimal U a = Some x \<Longrightarrow> decimal U b = Some y \<Longrightarrow> int_of U [a, b] = Inr (10 * x + y)"
  by (simp add: int_of_def)

lemma written_iff:
  "written U n w \<longleftrightarrow>
     (\<exists>c. w = [c] \<and> decimal U c = Some n) \<or>
     (\<exists>a b d. w = [a, b] \<and> ascii_digit a \<and> decimal U b = Some d \<and> n = 10 * (a - 48) + d)"
  by (auto simp: written_def split: list.splits option.splits)

lemma written_one: "decimal U c = Some n \<Longrightarrow> written U n [c]"
  by (simp add: written_def)

lemma written_two:
  "ascii_digit a \<Longrightarrow> decimal U b = Some d \<Longrightarrow> n = 10 * (a - 48) + d \<Longrightarrow> written U n [a, b]"
  by (simp add: written_def)

lemma written_int_of:
  assumes "ascii_decimals U" "written U n w"
  shows "int_of U w = Inr n"
  using assms(2) dec_ascii_digit [OF assms(1)]
  by (auto simp: written_iff int_of_one int_of_two)

lemma group_M_sound:
  assumes A: "ascii_decimals U" and "(w, r) \<in> set (group_M U s)"
  shows "s = w @ r \<and> (\<exists>m. written U m w \<and> m \<le> 59)"
proof -
  from assms(2) consider
      (two) a b d where "w = [a, b]" "s = a # b # r" "48 \<le> a" "a \<le> 53" "decimal U b = Some d"
    | (one) c d where "w = [c]" "s = c # r" "decimal U c = Some d"
    unfolding group_M_def by (auto simp: alt_m_set seq_m_set one_of_set cls_iff re_d_iff)
  then show ?thesis
  proof cases
    case two
    have "written U (10 * (a - 48) + d) [a, b]"
      using two by (intro written_two) (simp_all add: ascii_digit_def)
    moreover have "10 * (a - 48) + d \<le> 59" using two dec_lt [OF A two(5)] by arith
    ultimately show ?thesis using two by auto
  next
    case one
    then show ?thesis using dec_lt [OF A one(3)] written_one [of U c d] by auto
  qed
qed

lemma group_H_sound:
  assumes A: "ascii_decimals U" and "(w, r) \<in> set (group_H U s)"
  shows "s = w @ r \<and> (\<exists>h. written U h w \<and> h \<le> 23 \<and> (20 \<le> h \<longrightarrow> list_all ascii_digit w))"
proof -
  from assms(2) consider
      (twenty) b where "w = [50, b]" "s = 50 # b # r" "48 \<le> b" "b \<le> 51"
    | (two) a b d where "w = [a, b]" "s = a # b # r" "48 \<le> a" "a \<le> 49" "decimal U b = Some d"
    | (one) c d where "w = [c]" "s = c # r" "decimal U c = Some d"
    unfolding group_H_def by (auto simp: alt_m_set seq_m_set one_of_set cls_iff re_d_iff)
  then show ?thesis
  proof cases
    case twenty
    have b: "decimal U b = Some (b - 48)" "ascii_digit b"
      using dec_ascii_digit [OF A, of b] twenty by (simp_all add: ascii_digit_def)
    have "written U (20 + (b - 48)) [50, b]"
      using b by (intro written_two [where d = "b - 48"]) (simp_all add: ascii_digit_def)
    moreover have "20 + (b - 48) \<le> 23" using twenty by arith
    ultimately show ?thesis using twenty b
      by (intro conjI exI [of _ "20 + (b - 48)"]) (auto simp: ascii_digit_def)
  next
    case two
    have "written U (10 * (a - 48) + d) [a, b]"
      using two by (intro written_two) (simp_all add: ascii_digit_def)
    moreover have "10 * (a - 48) + d < 20" using two dec_lt [OF A two(5)] by arith
    ultimately show ?thesis using two by (intro conjI exI [of _ "10 * (a - 48) + d"]) auto
  next
    case one
    then show ?thesis using dec_lt [OF A one(3)] written_one [of U c d]
      by (intro conjI exI [of _ d]) auto
  qed
qed

lemma group_I_sound:
  assumes A: "ascii_decimals U" and "(w, r) \<in> set (group_I s)"
  shows "s = w @ r \<and> (\<exists>h. written U h w \<and> 1 \<le> h \<and> h \<le> 12 \<and> list_all ascii_digit w)"
proof -
  from assms(2) consider
      (ten) b where "w = [49, b]" "s = 49 # b # r" "48 \<le> b" "b \<le> 50"
    | (zero) b where "w = [48, b]" "s = 48 # b # r" "49 \<le> b" "b \<le> 57"
    | (one) c where "w = [c]" "s = c # r" "49 \<le> c" "c \<le> 57"
    unfolding group_I_def by (auto simp: alt_m_set seq_m_set one_of_set cls_iff)
  then show ?thesis
  proof cases
    case ten
    have b: "decimal U b = Some (b - 48)" "ascii_digit b"
      using dec_ascii_digit [OF A, of b] ten by (simp_all add: ascii_digit_def)
    have "written U (10 + (b - 48)) [49, b]"
      using b by (intro written_two [where d = "b - 48"]) (simp_all add: ascii_digit_def)
    moreover have "10 + (b - 48) \<le> 12" using ten by arith
    ultimately show ?thesis using ten b
      by (intro conjI exI [of _ "10 + (b - 48)"]) (auto simp: ascii_digit_def)
  next
    case zero
    have b: "decimal U b = Some (b - 48)" "ascii_digit b"
      using dec_ascii_digit [OF A, of b] zero by (simp_all add: ascii_digit_def)
    have "written U (b - 48) [48, b]"
      using b by (intro written_two [where d = "b - 48"]) (simp_all add: ascii_digit_def)
    moreover have "1 \<le> b - 48" "b - 48 \<le> 12" using zero by arith+
    ultimately show ?thesis using zero b
      by (intro conjI exI [of _ "b - 48"]) (auto simp: ascii_digit_def)
  next
    case one
    have c: "decimal U c = Some (c - 48)" "ascii_digit c"
      using dec_ascii_digit [OF A, of c] one by (simp_all add: ascii_digit_def)
    then show ?thesis using one written_one [of U c "c - 48"]
      by (intro conjI exI [of _ "c - 48"]) auto
  qed
qed

lemma group_p_sound:
  assumes "(p, r) \<in> set (group_p s)"
  shows "s = p @ r \<and> (map ascii_lower p = cps ''am'' \<or> map ascii_lower p = cps ''pm'')"
  using assms unfolding group_p_def
  by (auto simp: alt_m_set seq_m_set one_of_set cls_iff cps_lits ascii_lower_def)

lemma regex_H_M_sound:
  assumes A: "ascii_decimals U" and "((hw, mw), r) \<in> set (regex_H_M U s)"
  shows "s = hw @ cps '':'' @ mw @ r \<and>
         (\<exists>h m. written U h hw \<and> h \<le> 23 \<and> (20 \<le> h \<longrightarrow> list_all ascii_digit hw) \<and>
                written U m mw \<and> m \<le> 59)"
proof -
  from assms(2) obtain r1 c r2 where
    "(hw, r1) \<in> set (group_H U s)" "(c, r2) \<in> set (one_of (cls '':'') r1)"
    "(mw, r) \<in> set (group_M U r2)"
    by (auto simp: regex_H_M_def)
  then show ?thesis
    using group_H_sound [OF A, of hw r1 s] group_M_sound [OF A, of mw r r2]
    by (auto simp: one_of_set cls_iff cps_lits)
qed

lemma regex_I_M_p_sound:
  assumes A: "ascii_decimals U" and "((hw, mw, p), r) \<in> set (regex_I_M_p U s)"
  shows "s = hw @ cps '':'' @ mw @ p @ r \<and>
         (\<exists>h m. written U h hw \<and> 1 \<le> h \<and> h \<le> 12 \<and> list_all ascii_digit hw \<and>
                written U m mw \<and> m \<le> 59) \<and>
         (map ascii_lower p = cps ''am'' \<or> map ascii_lower p = cps ''pm'')"
proof -
  from assms(2) obtain r1 c r2 r3 where
    "(hw, r1) \<in> set (group_I s)" "(c, r2) \<in> set (one_of (cls '':'') r1)"
    "(mw, r3) \<in> set (group_M U r2)" "(p, r) \<in> set (group_p r3)"
    by (auto simp: regex_I_M_p_def)
  then show ?thesis
    using group_I_sound [OF A, of hw r1 s] group_M_sound [OF A, of mw r3 r2]
      group_p_sound [of p r r3]
    by (auto simp: one_of_set cls_iff cps_lits)
qed

lemmas matcher_defs = alt_m_def seq_m_def one_of_def

lemma re_d_ascii:
  assumes "ascii_decimals U"
  shows "\<not> re_d U 58" "\<not> re_d U 65" "\<not> re_d U 97" "\<not> re_d U 80" "\<not> re_d U 112"
  using dec_ascii [OF assms] by (simp_all add: re_d_def)

lemma re_d_ascii_digit: "ascii_decimals U \<Longrightarrow> ascii_digit a \<Longrightarrow> re_d U a"
  using dec_ascii_digit [of U a] by (simp add: re_d_def)

lemma ampm_cases:
  assumes "map ascii_lower ap = cps ''am'' \<or> map ascii_lower ap = cps ''pm''"
  obtains (am) x y where "ap = [x, y]" "x = 97 \<or> x = 65" "y = 109 \<or> y = 77"
      "map ascii_lower ap = cps ''am''" "map ascii_lower ap \<noteq> cps ''pm''"
    | (pm) x y where "ap = [x, y]" "x = 112 \<or> x = 80" "y = 109 \<or> y = 77"
      "map ascii_lower ap = cps ''pm''" "map ascii_lower ap \<noteq> cps ''am''"
proof -
  from assms obtain x y where xy: "ap = [x, y]"
    by (cases ap; cases "tl ap") (auto simp: cps_lits)
  have l: "ascii_lower c = 97 \<longleftrightarrow> c = 97 \<or> c = 65" "ascii_lower c = 112 \<longleftrightarrow> c = 112 \<or> c = 80"
    "ascii_lower c = 109 \<longleftrightarrow> c = 109 \<or> c = 77" for c
    by (auto simp: ascii_lower_def)
  from assms xy show ?thesis
    by (auto simp: cps_lits l intro: am pm)
qed

lemma regex_H_M_eval:
  assumes A: "ascii_decimals U" and "written U h hw" "h \<le> 23" "20 \<le> h \<longrightarrow> list_all ascii_digit hw"
  shows "regex_H_M U (hw @ 58 # rest) = map (\<lambda>(m, r). ((hw, m), r)) (group_M U rest)"
proof -
  from assms(2) consider
      (one) c where "hw = [c]" "decimal U c = Some h"
    | (two) a b d where "hw = [a, b]" "ascii_digit a" "decimal U b = Some d" "h = 10 * (a - 48) + d"
    by (auto simp: written_iff)
  then show ?thesis
  proof cases
    case one
    have "re_d U c" "c \<noteq> 58" using one dec_not_letter [OF A one(2)] by (simp_all add: re_d_def)
    then show ?thesis unfolding one(1)
      by (simp add: regex_H_M_def group_H_def matcher_defs cls_iff re_d_ascii [OF A])
  next
    case two
    have b: "re_d U b" "b \<noteq> 58" using two dec_not_letter [OF A two(3)] by (simp_all add: re_d_def)
    have a: "re_d U a" using re_d_ascii_digit [OF A two(2)] .
    have d: "d < 10" using dec_lt [OF A two(3)] .
    have "48 \<le> a \<and> a \<le> 49 \<or> a = 50 \<and> 48 \<le> b \<and> b \<le> 51"
    proof (cases "20 \<le> h")
      case True
      then have "ascii_digit b" using assms(4) two(1) by simp
      then have "decimal U b = Some (b - 48)" using dec_ascii_digit [OF A] by simp
      then have "d = b - 48" using two(3) by simp
      with True two(2,4) assms(3) \<open>ascii_digit b\<close> show ?thesis
        unfolding ascii_digit_def by arith
    next
      case False
      with two(2,4) show ?thesis unfolding ascii_digit_def by arith
    qed
    then show ?thesis unfolding two(1) using a b
      by (auto simp: regex_H_M_def group_H_def matcher_defs cls_iff)
  qed
qed

lemma regex_I_M_p_eval:
  assumes A: "ascii_decimals U" and "written U h hw" "1 \<le> h" "h \<le> 12" "list_all ascii_digit hw"
  shows "regex_I_M_p U (hw @ 58 # rest) =
    concat (map (\<lambda>(m, r3). map (\<lambda>(p, r4). ((hw, m, p), r4)) (group_p r3)) (group_M U rest))"
proof -
  from assms(2) consider
      (one) c where "hw = [c]" "decimal U c = Some h"
    | (two) a b d where "hw = [a, b]" "ascii_digit a" "decimal U b = Some d" "h = 10 * (a - 48) + d"
    by (auto simp: written_iff)
  then show ?thesis
  proof cases
    case one
    then have "ascii_digit c" using assms(5) by simp
    then have "decimal U c = Some (c - 48)" using dec_ascii_digit [OF A] by simp
    then have "h = c - 48" using one(2) by simp
    then have "49 \<le> c \<and> c \<le> 57" using assms(3) \<open>ascii_digit c\<close> unfolding ascii_digit_def by arith
    then show ?thesis unfolding one(1)
      by (simp add: regex_I_M_p_def group_I_def matcher_defs cls_iff)
  next
    case two
    then have "ascii_digit b" using assms(5) by simp
    then have "decimal U b = Some (b - 48)" using dec_ascii_digit [OF A] by simp
    then have "d = b - 48" using two(3) by simp
    then have "a = 49 \<and> 48 \<le> b \<and> b \<le> 50 \<or> a = 48 \<and> 49 \<le> b \<and> b \<le> 57"
      using two(2,4) assms(3,4) \<open>ascii_digit b\<close> unfolding ascii_digit_def by arith
    then show ?thesis unfolding two(1)
      by (auto simp: regex_I_M_p_def group_I_def matcher_defs cls_iff)
  qed
qed

lemma group_M_eval:
  assumes A: "ascii_decimals U" and "written U m mw" "m \<le> 59"
  shows "\<exists>more. group_M U mw = (mw, []) # more"
proof -
  from assms(2) consider
      (one) c where "mw = [c]" "decimal U c = Some m"
    | (two) a b d where "mw = [a, b]" "ascii_digit a" "decimal U b = Some d" "m = 10 * (a - 48) + d"
    by (auto simp: written_iff)
  then show ?thesis
  proof cases
    case one
    then have "re_d U c" by (simp add: re_d_def)
    then show ?thesis unfolding one(1)
      by (simp add: group_M_def matcher_defs cls_iff)
  next
    case two
    have "re_d U b" using two by (simp add: re_d_def)
    moreover have "48 \<le> a \<and> a \<le> 53" using two(2,4) assms(3) unfolding ascii_digit_def by arith
    ultimately show ?thesis unfolding two(1)
      by (simp add: group_M_def matcher_defs cls_iff)
  qed
qed

lemma group_M_p_eval:
  assumes A: "ascii_decimals U" and "written U m mw" "m \<le> 59"
    "map ascii_lower ap = cps ''am'' \<or> map ascii_lower ap = cps ''pm''"
  shows "concat (map (\<lambda>(m', r3). map (\<lambda>(p, r4). ((hw, m', p), r4)) (group_p r3))
           (group_M U (mw @ ap))) = [((hw, mw, ap), [])]"
proof -
  from assms(4) obtain x y where ap: "ap = [x, y]"
    "x = 97 \<or> x = 65 \<or> x = 112 \<or> x = 80" "y = 109 \<or> y = 77"
    by (cases rule: ampm_cases) auto
  have x: "\<not> re_d U x" using ap(2) re_d_ascii [OF A] by auto
  from assms(2) consider
      (one) c where "mw = [c]" "decimal U c = Some m"
    | (two) a b d where "mw = [a, b]" "ascii_digit a" "decimal U b = Some d" "m = 10 * (a - 48) + d"
    by (auto simp: written_iff)
  then show ?thesis
  proof cases
    case one
    then have "re_d U c" by (simp add: re_d_def)
    then show ?thesis unfolding one(1) ap(1) using x ap(2,3)
      by (auto simp: group_M_def group_p_def matcher_defs cls_iff)
  next
    case two
    have b: "re_d U b" using two by (simp add: re_d_def)
    have b': "b \<noteq> 97" "b \<noteq> 65" "b \<noteq> 112" "b \<noteq> 80" using dec_not_letter [OF A two(3)] by simp_all
    have a: "re_d U a" using re_d_ascii_digit [OF A two(2)] .
    have "48 \<le> a \<and> a \<le> 53" using two(2,4) assms(3) unfolding ascii_digit_def by arith
    then show ?thesis unfolding two(1) ap(1) using a b b' ap(2,3)
      by (auto simp: group_M_def group_p_def matcher_defs cls_iff)
  qed
qed

lemma strptime_H_M_accepts:
  assumes A: "ascii_decimals U" and "written U h hw" "h \<le> 23" "20 \<le> h \<longrightarrow> list_all ascii_digit hw"
    "written U m mw" "m \<le> 59"
  shows "strptime_H_M U (hw @ cps '':'' @ mw) = Inr (time_24h h m)"
proof -
  obtain more where "group_M U mw = (mw, []) # more"
    using group_M_eval [OF A assms(5,6)] by blast
  then have "regex_H_M U (hw @ cps '':'' @ mw) = ((hw, mw), []) # map (\<lambda>(m, r). ((hw, m), r)) more"
    using regex_H_M_eval [OF A assms(2-4), of mw] by (simp add: cps_lits)
  then show ?thesis
    by (simp add: strptime_H_M_def time_24h_def written_int_of [OF A assms(2)]
        written_int_of [OF A assms(5)])
qed

lemma strptime_I_M_p_accepts:
  assumes A: "ascii_decimals U" and "written U h hw" "1 \<le> h" "h \<le> 12" "list_all ascii_digit hw"
    "written U m mw" "m \<le> 59"
    "map ascii_lower ap = cps ''am'' \<or> map ascii_lower ap = cps ''pm''"
  shows "strptime_I_M_p U (hw @ cps '':'' @ mw @ ap) =
           Inr (time_12h h m (map ascii_lower ap = cps ''pm''))"
proof -
  have r: "regex_I_M_p U (hw @ cps '':'' @ mw @ ap) = [((hw, mw, ap), [])]"
    using regex_I_M_p_eval [OF A assms(2-5), of "mw @ ap"] group_M_p_eval [OF A assms(6-8), of hw]
    by (simp add: cps_lits)
  have e: "strptime_I_M_p U (hw @ cps '':'' @ mw @ ap) =
      Inr \<lparr>hour = (if map ascii_lower ap = [] \<or> map ascii_lower ap = cps ''am''
                    then (if h = 12 then 0 else h)
                    else if map ascii_lower ap = cps ''pm''
                         then (if h \<noteq> 12 then h + 12 else h) else h),
           minute = m, second = 0, microsecond = 0\<rparr>"
    by (simp add: strptime_I_M_p_def r Let_def written_int_of [OF A assms(2)]
        written_int_of [OF A assms(6)])
  have ne: "cps ''am'' \<noteq> []" "cps ''pm'' \<noteq> []" "cps ''am'' \<noteq> cps ''pm''"
    "cps ''pm'' \<noteq> cps ''am''"
    by (simp_all add: cps_lits)
  from assms(8) show ?thesis
  proof
    assume am: "map ascii_lower ap = cps ''am''"
    show ?thesis unfolding e am using assms(3,4) ne by (auto simp: time_12h_def)
  next
    assume pm: "map ascii_lower ap = cps ''pm''"
    show ?thesis unfolding e pm using assms(3,4) ne by (auto simp: time_12h_def)
  qed
qed

lemma int_of_error: "int_of U w = Inl e \<Longrightarrow> e = ValueError"
  by (auto simp: int_of_def split: option.splits if_splits)

lemma strptime_I_M_p_error: "strptime_I_M_p U n = Inl e \<Longrightarrow> e = ValueError"
  by (auto simp: strptime_I_M_p_def Let_def dest: int_of_error
      split: list.splits if_splits prod.splits sum.splits)

lemma strptime_H_M_error: "strptime_H_M U n = Inl e \<Longrightarrow> e = ValueError"
  by (auto simp: strptime_H_M_def dest: int_of_error
      split: list.splits if_splits prod.splits sum.splits)

lemma strptime_H_M_sound:
  assumes A: "ascii_decimals U" and "strptime_H_M U n = Inr t"
  shows "\<exists>h m hw mw. written U h hw \<and> h \<le> 23 \<and> (20 \<le> h \<longrightarrow> list_all ascii_digit hw) \<and>
           written U m mw \<and> m \<le> 59 \<and> n = hw @ cps '':'' @ mw \<and> t = time_24h h m"
proof -
  from assms(2) obtain hw mw more h' m' where
    r: "regex_H_M U n = ((hw, mw), []) # more" and i: "int_of U hw = Inr h'" "int_of U mw = Inr m'"
    and t: "t = time_24h h' m'"
    by (auto simp: strptime_H_M_def time_24h_def split: list.splits if_splits sum.splits)
  from r have "((hw, mw), []) \<in> set (regex_H_M U n)" by simp
  from regex_H_M_sound [OF A this] obtain h m where
    s: "n = hw @ cps '':'' @ mw" "written U h hw" "h \<le> 23" "20 \<le> h \<longrightarrow> list_all ascii_digit hw"
      "written U m mw" "m \<le> 59"
    by auto
  have "h' = h" "m' = m"
    using i written_int_of [OF A s(2)] written_int_of [OF A s(5)] by simp_all
  with s t show ?thesis by blast
qed

lemma strptime_I_M_p_sound:
  assumes A: "ascii_decimals U" and "strptime_I_M_p U n = Inr t"
  shows "\<exists>h m hw mw ap. written U h hw \<and> 1 \<le> h \<and> h \<le> 12 \<and> list_all ascii_digit hw \<and>
           written U m mw \<and> m \<le> 59 \<and>
           (map ascii_lower ap = cps ''am'' \<or> map ascii_lower ap = cps ''pm'') \<and>
           n = hw @ cps '':'' @ mw @ ap \<and> t = time_12h h m (map ascii_lower ap = cps ''pm'')"
proof -
  from assms(2) obtain hw mw ap more where
    r: "regex_I_M_p U n = ((hw, mw, ap), []) # more"
    by (auto simp: strptime_I_M_p_def split: list.splits if_splits)
  then have "((hw, mw, ap), []) \<in> set (regex_I_M_p U n)" by simp
  from regex_I_M_p_sound [OF A this] obtain h m where
    s: "n = hw @ cps '':'' @ mw @ ap" "written U h hw" "1 \<le> h" "h \<le> 12" "list_all ascii_digit hw"
      "written U m mw" "m \<le> 59"
      "map ascii_lower ap = cps ''am'' \<or> map ascii_lower ap = cps ''pm''"
    by auto
  have "strptime_I_M_p U n = Inr (time_12h h m (map ascii_lower ap = cps ''pm''))"
    unfolding s(1) using strptime_I_M_p_accepts [OF A s(2-8)] .
  with assms(2) have "t = time_12h h m (map ascii_lower ap = cps ''pm'')" by simp
  with s show ?thesis by blast
qed

lemma written_last:
  assumes "written U m mw"
  shows "mw \<noteq> [] \<and> (\<exists>d. decimal U (last mw) = Some d)"
  using assms by (auto simp: written_iff)

lemma strptime_I_M_p_rejects_24h:
  assumes A: "ascii_decimals U" and "written U m mw"
  shows "strptime_I_M_p U (hw @ cps '':'' @ mw) = Inl ValueError"
proof (cases "strptime_I_M_p U (hw @ cps '':'' @ mw)")
  case (Inl e)
  then show ?thesis using strptime_I_M_p_error by blast
next
  case (Inr t)
  from strptime_I_M_p_sound [OF A this] obtain u ap where
    u: "hw @ cps '':'' @ mw = u @ ap"
      "map ascii_lower ap = cps ''am'' \<or> map ascii_lower ap = cps ''pm''"
    by (metis append.assoc)
  from u(2) obtain x y where ap: "ap = [x, y]" "y = 109 \<or> y = 77"
    by (cases rule: ampm_cases) auto
  have "last (hw @ cps '':'' @ mw) = y" unfolding u(1) ap(1) by simp
  moreover have "last (hw @ cps '':'' @ mw) = last mw"
    using written_last [OF assms(2)] by simp
  ultimately have "\<exists>d. decimal U y = Some d" using written_last [OF assms(2)] by simp
  then show ?thesis using dec_not_letter(6,7) [OF A] ap(2) by blast
qed

text \<open>
  C5, as amended.  Let the database say of ASCII what Unicode says (\<open>ascii_decimals\<close>).
  On the string with its spaces stripped and its letters in upper case, \<open>parse_time\<close>
  returns the time of day exactly when the string is an hour, a colon and a minute,
  followed by \<^verbatim>\<open>AM\<close> or \<^verbatim>\<open>PM\<close> in either case (hour 1 to 12, read on the 12-hour clock) or
  by nothing (hour 0 to 23), where the minute is at most 59 and hour and minute are each
  written by one decimal digit or by two decimal digits (a leading zero included) of which
  the first is an ASCII digit; the digits are of any script, except that the hour before
  \<^verbatim>\<open>AM\<close> or \<^verbatim>\<open>PM\<close> and an hour from 20 to 23 are written in ASCII digits.  On every other
  string it returns \<^verbatim>\<open>None\<close>.  It never raises.
\<close>

theorem parse_time_accepts_exactly:
  assumes "ascii_decimals U"
  shows
  "(written U h hw \<and> list_all ascii_digit hw \<and> 1 \<le> h \<and> h \<le> 12 \<and> written U m mw \<and> m \<le> 59 \<and>
    (map ascii_lower ap = cps ''am'' \<or> map ascii_lower ap = cps ''pm'') \<and>
    normalize U s = hw @ cps '':'' @ mw @ ap
      \<longrightarrow> parse_time U s = Some (time_12h h m (map ascii_lower ap = cps ''pm''))) \<and>
   (written U h hw \<and> h \<le> 23 \<and> (20 \<le> h \<longrightarrow> list_all ascii_digit hw) \<and>
    written U m mw \<and> m \<le> 59 \<and> normalize U s = hw @ cps '':'' @ mw
      \<longrightarrow> parse_time U s = Some (time_24h h m)) \<and>
   (parse_time U s = Some t
      \<longrightarrow> (\<exists>h m hw mw ap. written U h hw \<and> written U m mw \<and> m \<le> 59 \<and>
            (1 \<le> h \<and> h \<le> 12 \<and> list_all ascii_digit hw \<and>
               (map ascii_lower ap = cps ''am'' \<or> map ascii_lower ap = cps ''pm'') \<and>
               normalize U s = hw @ cps '':'' @ mw @ ap \<and>
               t = time_12h h m (map ascii_lower ap = cps ''pm'') \<or>
             h \<le> 23 \<and> (20 \<le> h \<longrightarrow> list_all ascii_digit hw) \<and>
               normalize U s = hw @ cps '':'' @ mw \<and> t = time_24h h m)))"
proof (intro conjI impI)
  note A = assms
  assume a: "written U h hw \<and> list_all ascii_digit hw \<and> 1 \<le> h \<and> h \<le> 12 \<and> written U m mw \<and>
    m \<le> 59 \<and> (map ascii_lower ap = cps ''am'' \<or> map ascii_lower ap = cps ''pm'') \<and>
    normalize U s = hw @ cps '':'' @ mw @ ap"
  then have "strptime_I_M_p U (normalize U s) = Inr (time_12h h m (map ascii_lower ap = cps ''pm''))"
    using strptime_I_M_p_accepts [OF A, of h hw m mw ap] by simp
  then show "parse_time U s = Some (time_12h h m (map ascii_lower ap = cps ''pm''))"
    by (simp add: parse_time_def)
next
  note A = assms
  assume a: "written U h hw \<and> h \<le> 23 \<and> (20 \<le> h \<longrightarrow> list_all ascii_digit hw) \<and>
    written U m mw \<and> m \<le> 59 \<and> normalize U s = hw @ cps '':'' @ mw"
  then have "strptime_I_M_p U (normalize U s) = Inl ValueError"
    using strptime_I_M_p_rejects_24h [OF A, of m mw hw] by simp
  moreover have "strptime_H_M U (normalize U s) = Inr (time_24h h m)"
    using a strptime_H_M_accepts [OF A, of h hw m mw] by simp
  ultimately show "parse_time U s = Some (time_24h h m)"
    by (simp add: parse_time_def)
next
  note A = assms
  assume p: "parse_time U s = Some t"
  let ?n = "normalize U s"
  show "\<exists>h m hw mw ap. written U h hw \<and> written U m mw \<and> m \<le> 59 \<and>
            (1 \<le> h \<and> h \<le> 12 \<and> list_all ascii_digit hw \<and>
               (map ascii_lower ap = cps ''am'' \<or> map ascii_lower ap = cps ''pm'') \<and>
               ?n = hw @ cps '':'' @ mw @ ap \<and>
               t = time_12h h m (map ascii_lower ap = cps ''pm'') \<or>
             h \<le> 23 \<and> (20 \<le> h \<longrightarrow> list_all ascii_digit hw) \<and>
               ?n = hw @ cps '':'' @ mw \<and> t = time_24h h m)"
  proof (cases "strptime_I_M_p U ?n")
    case (Inr t')
    with p have "t' = t" by (simp add: parse_time_def)
    with Inr have "strptime_I_M_p U ?n = Inr t" by simp
    from strptime_I_M_p_sound [OF A this] show ?thesis by blast
  next
    case (Inl e)
    then have e: "strptime_I_M_p U ?n = Inl ValueError"
      using strptime_I_M_p_error by blast
    with p have "strptime_H_M U ?n = Inr t"
      using strptime_H_M_error [of U ?n]
      by (cases "strptime_H_M U ?n") (auto simp: parse_time_def split: pyerror.splits)
    from strptime_H_M_sound [OF A this] show ?thesis by blast
  qed
qed

lemmas regex_eval_defs = regex_I_M_p_def regex_H_M_def group_I_def group_H_def group_M_def
  group_p_def alt_m_def seq_m_def one_of_def cls_def re_d_def cps_def

theorem parse_time_accepts_exactly_witness:
  "ascii_decimals ucd_excerpt \<and>
   parse_time ucd_excerpt (cps ''9:00 am'') = Some \<lparr>hour = 9, minute = 0, second = 0, microsecond = 0\<rparr> \<and>
   parse_time ucd_excerpt (cps ''12:05 PM'') = Some \<lparr>hour = 12, minute = 5, second = 0, microsecond = 0\<rparr> \<and>
   parse_time ucd_excerpt (cps ''14:30'') = Some \<lparr>hour = 14, minute = 30, second = 0, microsecond = 0\<rparr> \<and>
   parse_time ucd_excerpt [1641, 58, 1632] = Some \<lparr>hour = 9, minute = 0, second = 0, microsecond = 0\<rparr> \<and>
   parse_time ucd_excerpt [49, 1635, 58, 51, 1632] = Some \<lparr>hour = 13, minute = 30, second = 0, microsecond = 0\<rparr> \<and>
   parse_time ucd_excerpt [1634, 1635, 58, 1632, 1632] = None \<and>
   parse_time ucd_excerpt (cps ''garbage'') = None"
proof -
  note A = ucd_excerpt_ascii
  have n1: "normalize ucd_excerpt (cps ''9:00 am'') = [57] @ cps '':'' @ [48, 48] @ cps ''AM''"
    by (simp add: normalize_def cps_def)
  have n2: "normalize ucd_excerpt (cps ''12:05 PM'') = [49, 50] @ cps '':'' @ [48, 53] @ cps ''PM''"
    by (simp add: normalize_def cps_def)
  have n3: "normalize ucd_excerpt (cps ''14:30'') = [49, 52] @ cps '':'' @ [51, 48]"
    by (simp add: normalize_def cps_def)
  have n4: "normalize ucd_excerpt [1641, 58, 1632] = [1641] @ cps '':'' @ [1632]"
    by (simp add: normalize_def cps_def)
  have n5: "normalize ucd_excerpt [49, 1635, 58, 51, 1632] = [49, 1635] @ cps '':'' @ [51, 1632]"
    by (simp add: normalize_def cps_def)
  have w: "written ucd_excerpt 9 [57]" "written ucd_excerpt 0 [48, 48]"
    "written ucd_excerpt 12 [49, 50]" "written ucd_excerpt 5 [48, 53]"
    "written ucd_excerpt 14 [49, 52]" "written ucd_excerpt 30 [51, 48]"
    "written ucd_excerpt 9 [1641]" "written ucd_excerpt 0 [1632]"
    "written ucd_excerpt 13 [49, 1635]" "written ucd_excerpt 30 [51, 1632]"
    by (simp_all add: written_def ascii_digit_def)
  have l: "map ascii_lower (cps ''AM'') = cps ''am''" "map ascii_lower (cps ''PM'') = cps ''pm''"
    "cps ''am'' \<noteq> cps ''pm''"
    by (simp_all add: cps_def ascii_lower_def)
  have "parse_time ucd_excerpt (cps ''9:00 am'') = Some (time_12h 9 0 False)"
    using parse_time_accepts_exactly [OF A, of 9 "[57]" 0 "[48, 48]" "cps ''AM''" "cps ''9:00 am''"]
      w n1 l by (simp add: ascii_digit_def)
  moreover have "parse_time ucd_excerpt (cps ''12:05 PM'') = Some (time_12h 12 5 True)"
    using parse_time_accepts_exactly [OF A, of 12 "[49, 50]" 5 "[48, 53]" "cps ''PM''" "cps ''12:05 PM''"]
      w n2 l by (simp add: ascii_digit_def)
  moreover have "parse_time ucd_excerpt (cps ''14:30'') = Some (time_24h 14 30)"
    using parse_time_accepts_exactly [OF A, of 14 "[49, 52]" 30 "[51, 48]" _ "cps ''14:30''"] w n3
    by simp
  moreover have "parse_time ucd_excerpt [1641, 58, 1632] = Some (time_24h 9 0)"
    using parse_time_accepts_exactly [OF A, of 9 "[1641]" 0 "[1632]" _ "[1641, 58, 1632]"] w n4
    by simp
  moreover have "parse_time ucd_excerpt [49, 1635, 58, 51, 1632] = Some (time_24h 13 30)"
    using parse_time_accepts_exactly [OF A, of 13 "[49, 1635]" 30 "[51, 1632]" _
        "[49, 1635, 58, 51, 1632]"] w n5
    by simp
  moreover have "parse_time ucd_excerpt [1634, 1635, 58, 1632, 1632] = None"
  proof -
    have n: "normalize ucd_excerpt [1634, 1635, 58, 1632, 1632] = [1634, 1635, 58, 1632, 1632]"
      by (simp add: normalize_def)
    have "strptime_I_M_p ucd_excerpt [1634, 1635, 58, 1632, 1632] = Inl ValueError"
      by (simp add: strptime_I_M_p_def regex_eval_defs)
    moreover have "strptime_H_M ucd_excerpt [1634, 1635, 58, 1632, 1632] = Inl ValueError"
      by (simp add: strptime_H_M_def regex_eval_defs)
    ultimately show ?thesis by (simp add: parse_time_def n)
  qed
  moreover have "parse_time ucd_excerpt (cps ''garbage'') = None"
  proof -
    have n: "normalize ucd_excerpt (cps ''garbage'') = cps ''GARBAGE''"
      by (simp add: normalize_def cps_def)
    have "strptime_I_M_p ucd_excerpt (cps ''GARBAGE'') = Inl ValueError"
      by (simp add: strptime_I_M_p_def regex_eval_defs)
    moreover have "strptime_H_M ucd_excerpt (cps ''GARBAGE'') = Inl ValueError"
      by (simp add: strptime_H_M_def regex_eval_defs)
    ultimately show ?thesis by (simp add: parse_time_def n)
  qed
  ultimately show ?thesis using A by (simp add: time_12h_def time_24h_def)
qed

text \<open>
  C5 as stated fails: \<^verbatim>\<open>9:5\<close> has neither of the two forms (its minute has one digit and
  it has no suffix), and \<open>parse_time\<close> returns 09:05 for it, not \<^verbatim>\<open>None\<close>.
\<close>

theorem parse_time_one_digit_minute_counterexample:
  "\<not> form_12h ucd_excerpt (normalize ucd_excerpt (cps ''9:5'')) \<and>
   \<not> form_24h ucd_excerpt (normalize ucd_excerpt (cps ''9:5'')) \<and>
   parse_time ucd_excerpt (cps ''9:5'') =
     Some \<lparr>hour = 9, minute = 5, second = 0, microsecond = 0\<rparr>"
proof -
  have n: "normalize ucd_excerpt (cps ''9:5'') = [57, 58, 53]"
    by (simp add: normalize_def cps_def)
  have "strptime_I_M_p ucd_excerpt [57, 58, 53] = Inl ValueError"
    by (simp add: strptime_I_M_p_def regex_eval_defs)
  moreover have "strptime_H_M ucd_excerpt [57, 58, 53] =
      Inr \<lparr>hour = 9, minute = 5, second = 0, microsecond = 0\<rparr>"
    by (simp add: strptime_H_M_def regex_eval_defs int_of_def)
  ultimately have "parse_time ucd_excerpt (cps ''9:5'') =
      Some \<lparr>hour = 9, minute = 5, second = 0, microsecond = 0\<rparr>"
    by (simp add: parse_time_def n)
  then show ?thesis
    by (simp add: n form_12h_def form_24h_def)
qed

subsection \<open>Schedule normalisation\<close>

lemma days_loop_append:
  "days_loop today section ds events =
     (events @ fst (days_loop today section ds []), snd (days_loop today section ds []))"
proof (induction ds arbitrary: events)
  case Nil
  show ?case by simp
next
  case (Cons d ds)
  note IH = Cons.IH
  show ?case
  proof (cases "day_map d")
    case None
    then show ?thesis using IH [of events] by simp
  next
    case (Some day_name)
    show ?thesis
    proof (cases "get_next_weekday_date today day_name")
      case (Inl e)
      with Some show ?thesis by simp
    next
      case (Inr event_date)
      show ?thesis
      proof (cases "parse_time ucd_excerpt (cps (start_time section))")
        case None
        with Some Inr show ?thesis using IH [of events] by simp
      next
        case st: (Some start_t)
        show ?thesis
        proof (cases "parse_time ucd_excerpt (cps (end_time section))")
          case None
          with Some Inr st show ?thesis using IH [of events] by simp
        next
          case et: (Some end_t)
          let ?ev = "concrete_event section day_name event_date start_t end_t"
          show ?thesis
            using Some Inr st et IH [of "events @ [?ev]"] IH [of "[?ev]"] by simp
        qed
      qed
    qed
  qed
qed

lemma section_events_append:
  "fst (section_events today section events) = events @ fst (section_events today section [])"
  using days_loop_append [of today "section" "days section" events]
  by (simp add: section_events_def)

lemma crn_events_eq:
  "crn_events crn_lookup today crn =
     (case crn_lookup crn of
        Inl e \<Rightarrow> []
      | Inr None \<Rightarrow> []
      | Inr (Some section) \<Rightarrow> fst (section_events today section []))"
  by (simp add: crn_events_def)

lemma crn_loop_concat:
  "crn_loop crn_lookup today crns events =
     events @ concat (map (crn_events crn_lookup today) crns)"
proof (induction crns arbitrary: events)
  case Nil
  show ?case by simp
next
  case (Cons crn crns)
  show ?case
    using section_events_append [of today _ events]
    by (simp add: Cons.IH crn_events_eq split: sum.splits option.splits)
qed

text \<open>
  C6.  A resolved section whose days field is \<^verbatim>\<open>ARR\<close> yields exactly one occurrence: the
  degenerate one, with \<^verbatim>\<open>needs_days_input\<close> true and the raw time strings; it has no
  \<^verbatim>\<open>start_datetime\<close>, \<^verbatim>\<open>end_datetime\<close> or \<^verbatim>\<open>day\<close>, and the result is the same
  whatever the date of the day is.
\<close>

theorem arranged_section_one_degenerate_occurrence:
  assumes "days section = ''ARR''"
  shows "section_events today section events = (events @ [arranged_event section], None) \<and>
    (crn_lookup crn = Inr (Some section) \<longrightarrow>
       crn_events crn_lookup today crn = [arranged_event section]) \<and>
    arranged_event section ''needs_days_input'' = Some (PyBool True) \<and>
    arranged_event section ''start_time_str'' = Some (PyStr (start_time section)) \<and>
    arranged_event section ''end_time_str'' = Some (PyStr (end_time section)) \<and>
    arranged_event section ''start_datetime'' = None \<and>
    arranged_event section ''end_datetime'' = None \<and>
    arranged_event section ''day'' = None"
proof -
  have "contains ''ARR'' (days section)" using assms by simp
  then have "section_events today section evs = (evs @ [arranged_event section], None)" for evs
    by (simp add: section_events_def)
  then show ?thesis
    by (simp add: crn_events_eq arranged_event_def)
qed


theorem arranged_section_one_degenerate_occurrence_witness:
  "days \<lparr>code = ''CS4994'', name = ''Research'', location = ''TBA'', days = ''ARR'',
      start_time = ''-----'', end_time = ''-----''\<rparr> = ''ARR'' \<and>
   section_events (Date 739495)
     \<lparr>code = ''CS4994'', name = ''Research'', location = ''TBA'', days = ''ARR'',
      start_time = ''-----'', end_time = ''-----''\<rparr> [] =
     ([[''subject'' \<mapsto> PyStr ''CS4994 Research'', ''location'' \<mapsto> PyStr ''TBA'',
        ''needs_days_input'' \<mapsto> PyBool True, ''start_time_str'' \<mapsto> PyStr ''-----'',
        ''end_time_str'' \<mapsto> PyStr ''-----'']], None)"
proof -
  let ?sec = "\<lparr>code = ''CS4994'', name = ''Research'', location = ''TBA'', days = ''ARR'',
      start_time = ''-----'', end_time = ''-----''\<rparr>"
  have d: "days ?sec = ''ARR''" by simp
  from arranged_section_one_degenerate_occurrence [OF d, of "Date 739495" "[]", THEN conjunct1]
  have "section_events (Date 739495) ?sec [] = ([arranged_event ?sec], None)" by simp
  then show ?thesis by (simp add: arranged_event_def)
qed

lemma get_next_weekday_date_total:
  assumes "valid_date today" "toordinal today + 7 \<le> MAXORDINAL"
  shows "\<exists>d. get_next_weekday_date today day_name = Inr d"
proof (cases "index_of days_of_week (lower day_name)")
  case None
  then show ?thesis by (simp add: get_next_weekday_date_def)
next
  case (Some i)
  have "0 \<le> (int i - weekday today + 7) mod 7" "(int i - weekday today + 7) mod 7 < 7"
    by simp_all
  then show ?thesis
    using assms Some
    by (auto simp: get_next_weekday_date_def Let_def date_add_def valid_date_def)
qed

lemma expected_day_occurrences_unparsed:
  assumes "parse_time ucd_excerpt (cps (start_time sec)) = None \<or>
    parse_time ucd_excerpt (cps (end_time sec)) = None"
  shows "expected_day_occurrences today sec d = []"
  using assms
  by (auto simp: expected_day_occurrences_def split: option.splits sum.splits)

lemma days_loop_expected:
  assumes "valid_date today" "toordinal today + 7 \<le> MAXORDINAL"
  shows "days_loop today sec ds events =
    (events @ concat (map (expected_day_occurrences today sec) ds), None)"
proof (induction ds arbitrary: events)
  case Nil
  show ?case by simp
next
  case (Cons d ds)
  show ?case
  proof (cases "day_map d")
    case None
    then show ?thesis by (simp add: Cons.IH expected_day_occurrences_def)
  next
    case (Some day_name)
    obtain event_date where g: "get_next_weekday_date today day_name = Inr event_date"
      using get_next_weekday_date_total [OF assms] by blast
    show ?thesis
      by (cases "parse_time ucd_excerpt (cps (start_time sec))";
          cases "parse_time ucd_excerpt (cps (end_time sec))")
         (simp_all add: Some g Cons.IH expected_day_occurrences_def)
  qed
qed

lemma days_loop_unparsed:
  assumes "parse_time ucd_excerpt (cps (start_time sec)) = None \<or>
    parse_time ucd_excerpt (cps (end_time sec)) = None"
  shows "fst (days_loop today sec ds events) = events"
proof (induction ds)
  case Nil
  show ?case by simp
next
  case (Cons d ds)
  show ?case
  proof (cases "day_map d")
    case None
    then show ?thesis using Cons.IH by simp
  next
    case (Some day_name)
    show ?thesis
      using assms Cons.IH Some
      by (cases "get_next_weekday_date today day_name") (auto split: option.splits)
  qed
qed

lemma section_events_expected:
  assumes "valid_date today" "toordinal today + 7 \<le> MAXORDINAL"
  shows "section_events today sec events = (events @ expected_section_occurrences today sec, None)"
  by (simp add: section_events_def expected_section_occurrences_def days_loop_expected [OF assms])

lemma crn_loop_expected:
  assumes "valid_date today" "toordinal today + 7 \<le> MAXORDINAL"
  shows "crn_loop crn_lookup today crns events =
    events @ concat (map (expected_occurrences crn_lookup today) crns)"
proof (induction crns arbitrary: events)
  case Nil
  show ?case by simp
next
  case (Cons crn crns)
  show ?case
    by (simp add: Cons.IH expected_occurrences_def section_events_expected [OF assms]
        split: sum.splits option.splits)
qed

text \<open>
  C7.  As long as the clock is not in the last seven days of the calendar, the parser
  returns, for the identifiers of the text in order, the occurrences expected of each one
  by itself, and the loop over the day letters of a section runs to its end, raising
  nothing and appending the occurrences expected of the section.  An identifier for which
  the resolver raises is expected to give nothing, and the others are processed as if it
  were absent.  When a time string of a section does not parse, no day letter of the
  section is expected to give an occurrence, and the loop over the day letters leaves the
  list of events as it was.
\<close>

theorem failures_contained_to_their_unit:
  "(valid_date today \<and> toordinal today + 7 \<le> MAXORDINAL \<longrightarrow>
      parse_timetable_text U crn_lookup today ocr_text =
        concat (map (expected_occurrences crn_lookup today) (findall5 (re_d U) ocr_text)) \<and>
      crn_loop crn_lookup today crns events =
        events @ concat (map (expected_occurrences crn_lookup today) crns) \<and>
      section_events today sec events = (events @ expected_section_occurrences today sec, None) \<and>
      days_loop today sec ds events =
        (events @ concat (map (expected_day_occurrences today sec) ds), None)) \<and>
   (crn_lookup crn = Inl e \<longrightarrow>
      expected_occurrences crn_lookup today crn = [] \<and>
      crn_loop crn_lookup today (crns1 @ crn # crns2) events =
        crn_loop crn_lookup today (crns1 @ crns2) events) \<and>
   (parse_time ucd_excerpt (cps (start_time sec)) = None \<or>
    parse_time ucd_excerpt (cps (end_time sec)) = None \<longrightarrow>
      expected_day_occurrences today sec d = [] \<and>
      fst (days_loop today sec ds events) = events)"
proof (intro conjI impI)
  assume r: "valid_date today \<and> toordinal today + 7 \<le> MAXORDINAL"
  then have v: "valid_date today" "toordinal today + 7 \<le> MAXORDINAL" by simp_all
  show "parse_timetable_text U crn_lookup today ocr_text =
        concat (map (expected_occurrences crn_lookup today) (findall5 (re_d U) ocr_text))"
    by (simp add: parse_timetable_text_def crn_loop_expected [OF v])
  show "crn_loop crn_lookup today crns events =
        events @ concat (map (expected_occurrences crn_lookup today) crns)"
    by (rule crn_loop_expected [OF v])
  show "section_events today sec events = (events @ expected_section_occurrences today sec, None)"
    by (rule section_events_expected [OF v])
  show "days_loop today sec ds events =
        (events @ concat (map (expected_day_occurrences today sec) ds), None)"
    by (rule days_loop_expected [OF v])
next
  assume "crn_lookup crn = Inl e"
  then show "expected_occurrences crn_lookup today crn = []"
    by (simp add: expected_occurrences_def)
next
  assume "crn_lookup crn = Inl e"
  then have "crn_events crn_lookup today crn = []" by (simp add: crn_events_eq)
  then show "crn_loop crn_lookup today (crns1 @ crn # crns2) events =
      crn_loop crn_lookup today (crns1 @ crns2) events"
    by (simp add: crn_loop_concat)
next
  assume a: "parse_time ucd_excerpt (cps (start_time sec)) = None \<or>
    parse_time ucd_excerpt (cps (end_time sec)) = None"
  show "expected_day_occurrences today sec d = []"
    using a by (rule expected_day_occurrences_unparsed)
  show "fst (days_loop today sec ds events) = events"
    using a by (rule days_loop_unparsed)
qed

lemmas regex_eval_all = strptime_I_M_p_def strptime_H_M_def regex_eval_defs int_of_def
  ascii_lower_def Let_def

theorem failures_contained_to_their_unit_witness:
  "parse_timetable_text ucd_excerpt
     (\<lambda>c. if c = cps ''83538''
          then Inr (Some \<lparr>code = ''CS1114'', name = ''Intro'', location = ''McBryde 100'',
                  days = ''MWF'', start_time = ''9:00AM'', end_time = ''9:50AM''\<rparr>)
          else if c = cps ''11111''
          then Inr (Some \<lparr>code = ''CS2114'', name = ''Data'', location = ''Torgersen 1'',
                  days = ''TR'', start_time = ''garbage'', end_time = ''9:50AM''\<rparr>)
          else Inl ResolverError)
     (Date 739495) (cps ''00000 11111 83538'') =
   [[''subject'' \<mapsto> PyStr ''CS1114 Intro'',
     ''start_datetime'' \<mapsto> PyDatetime \<lparr>dt_date = Date 739502,
        dt_time = \<lparr>hour = 9, minute = 0, second = 0, microsecond = 0\<rparr>, dt_tzinfo = None\<rparr>,
     ''end_datetime'' \<mapsto> PyDatetime \<lparr>dt_date = Date 739502,
        dt_time = \<lparr>hour = 9, minute = 50, second = 0, microsecond = 0\<rparr>, dt_tzinfo = None\<rparr>,
     ''location'' \<mapsto> PyStr ''McBryde 100'', ''day'' \<mapsto> PyStr ''Monday''],
    [''subject'' \<mapsto> PyStr ''CS1114 Intro'',
     ''start_datetime'' \<mapsto> PyDatetime \<lparr>dt_date = Date 739497,
        dt_time = \<lparr>hour = 9, minute = 0, second = 0, microsecond = 0\<rparr>, dt_tzinfo = None\<rparr>,
     ''end_datetime'' \<mapsto> PyDatetime \<lparr>dt_date = Date 739497,
        dt_time = \<lparr>hour = 9, minute = 50, second = 0, microsecond = 0\<rparr>, dt_tzinfo = None\<rparr>,
     ''location'' \<mapsto> PyStr ''McBryde 100'', ''day'' \<mapsto> PyStr ''Wednesday''],
    [''subject'' \<mapsto> PyStr ''CS1114 Intro'',
     ''start_datetime'' \<mapsto> PyDatetime \<lparr>dt_date = Date 739499,
        dt_time = \<lparr>hour = 9, minute = 0, second = 0, microsecond = 0\<rparr>, dt_tzinfo = None\<rparr>,
     ''end_datetime'' \<mapsto> PyDatetime \<lparr>dt_date = Date 739499,
        dt_time = \<lparr>hour = 9, minute = 50, second = 0, microsecond = 0\<rparr>, dt_tzinfo = None\<rparr>,
     ''location'' \<mapsto> PyStr ''McBryde 100'', ''day'' \<mapsto> PyStr ''Friday'']] \<and>
   section_events (Date 739495)
     \<lparr>code = ''CS2114'', name = ''Data'', location = ''Torgersen 1'',
      days = ''TR'', start_time = ''garbage'', end_time = ''9:50AM''\<rparr> [] = ([], None)"
proof -
  let ?good = "\<lparr>code = ''CS1114'', name = ''Intro'', location = ''McBryde 100'',
                  days = ''MWF'', start_time = ''9:00AM'', end_time = ''9:50AM''\<rparr>"
  let ?bad = "\<lparr>code = ''CS2114'', name = ''Data'', location = ''Torgersen 1'',
                  days = ''TR'', start_time = ''garbage'', end_time = ''9:50AM''\<rparr>"
  let ?lk = "\<lambda>c. if c = cps ''83538'' then Inr (Some ?good)
          else if c = cps ''11111'' then Inr (Some ?bad)
          else Inl ResolverError :: pyerror + course_section option"
  let ?today = "Date 739495"
  have v: "valid_date ?today \<and> toordinal ?today + 7 \<le> MAXORDINAL"
    by (simp add: valid_date_def MAXORDINAL_def)
  have crns: "findall5 (re_d ucd_excerpt) (cps ''00000 11111 83538'') =
      [cps ''00000'', cps ''11111'', cps ''83538'']"
    by (simp add: re_d_def cps_def)
  have lk: "?lk (cps ''00000'') = Inl ResolverError" "?lk (cps ''11111'') = Inr (Some ?bad)"
    "?lk (cps ''83538'') = Inr (Some ?good)"
    by (simp_all add: cps_def)
  have p1: "parse_time ucd_excerpt (cps ''9:00AM'') =
      Some \<lparr>hour = 9, minute = 0, second = 0, microsecond = 0\<rparr>"
  proof -
    have n: "normalize ucd_excerpt (cps ''9:00AM'') = [57, 58, 48, 48, 65, 77]"
      by (simp add: normalize_def cps_def)
    have "strptime_I_M_p ucd_excerpt [57, 58, 48, 48, 65, 77] =
        Inr \<lparr>hour = 9, minute = 0, second = 0, microsecond = 0\<rparr>"
      by (simp add: regex_eval_all)
    then show ?thesis by (simp add: parse_time_def n)
  qed
  have p2: "parse_time ucd_excerpt (cps ''9:50AM'') =
      Some \<lparr>hour = 9, minute = 50, second = 0, microsecond = 0\<rparr>"
  proof -
    have n: "normalize ucd_excerpt (cps ''9:50AM'') = [57, 58, 53, 48, 65, 77]"
      by (simp add: normalize_def cps_def)
    have "strptime_I_M_p ucd_excerpt [57, 58, 53, 48, 65, 77] =
        Inr \<lparr>hour = 9, minute = 50, second = 0, microsecond = 0\<rparr>"
      by (simp add: regex_eval_all)
    then show ?thesis by (simp add: parse_time_def n)
  qed
  have p3: "parse_time ucd_excerpt (cps ''garbage'') = None"
  proof -
    have n: "normalize ucd_excerpt (cps ''garbage'') = cps ''GARBAGE''"
      by (simp add: normalize_def cps_def)
    have "strptime_I_M_p ucd_excerpt (cps ''GARBAGE'') = Inl ValueError"
      by (simp add: strptime_I_M_p_def regex_eval_defs)
    moreover have "strptime_H_M ucd_excerpt (cps ''GARBAGE'') = Inl ValueError"
      by (simp add: strptime_H_M_def regex_eval_defs)
    ultimately show ?thesis by (simp add: parse_time_def n)
  qed
  have ix: "index_of days_of_week (lower ''Monday'') = Some 0"
    "index_of days_of_week (lower ''Wednesday'') = Some 2"
    "index_of days_of_week (lower ''Friday'') = Some 4"
    by (simp_all add: lower_def lower_char_def days_of_week_def)
  have g: "get_next_weekday_date ?today ''Monday'' = Inr (Date 739502)"
    "get_next_weekday_date ?today ''Wednesday'' = Inr (Date 739497)"
    "get_next_weekday_date ?today ''Friday'' = Inr (Date 739499)"
    unfolding get_next_weekday_date_def ix
    by (simp_all add: weekday_def date_add_def MAXORDINAL_def)
  have dm: "day_map CHR ''M'' = Some ''Monday''" "day_map CHR ''W'' = Some ''Wednesday''"
    "day_map CHR ''F'' = Some ''Friday''"
    by (simp_all add: day_map_def)
  have d: "expected_day_occurrences ?today ?good CHR ''M'' =
        [concrete_event ?good ''Monday'' (Date 739502)
           \<lparr>hour = 9, minute = 0, second = 0, microsecond = 0\<rparr>
           \<lparr>hour = 9, minute = 50, second = 0, microsecond = 0\<rparr>]"
    "expected_day_occurrences ?today ?good CHR ''W'' =
        [concrete_event ?good ''Wednesday'' (Date 739497)
           \<lparr>hour = 9, minute = 0, second = 0, microsecond = 0\<rparr>
           \<lparr>hour = 9, minute = 50, second = 0, microsecond = 0\<rparr>]"
    "expected_day_occurrences ?today ?good CHR ''F'' =
        [concrete_event ?good ''Friday'' (Date 739499)
           \<lparr>hour = 9, minute = 0, second = 0, microsecond = 0\<rparr>
           \<lparr>hour = 9, minute = 50, second = 0, microsecond = 0\<rparr>]"
    by (simp_all add: expected_day_occurrences_def dm g p1 p2)
  have sg: "expected_section_occurrences ?today ?good =
        [concrete_event ?good ''Monday'' (Date 739502)
           \<lparr>hour = 9, minute = 0, second = 0, microsecond = 0\<rparr>
           \<lparr>hour = 9, minute = 50, second = 0, microsecond = 0\<rparr>,
         concrete_event ?good ''Wednesday'' (Date 739497)
           \<lparr>hour = 9, minute = 0, second = 0, microsecond = 0\<rparr>
           \<lparr>hour = 9, minute = 50, second = 0, microsecond = 0\<rparr>,
         concrete_event ?good ''Friday'' (Date 739499)
           \<lparr>hour = 9, minute = 0, second = 0, microsecond = 0\<rparr>
           \<lparr>hour = 9, minute = 50, second = 0, microsecond = 0\<rparr>]"
    by (simp add: expected_section_occurrences_def d)
  have pb: "parse_time ucd_excerpt (cps (start_time ?bad)) = None \<or>
      parse_time ucd_excerpt (cps (end_time ?bad)) = None"
    by (simp add: p3)
  note inst = failures_contained_to_their_unit [where today = "?today" and U = ucd_excerpt
      and crn_lookup = "?lk" and ocr_text = "cps ''00000 11111 83538''" and sec = "?bad"
      and events = "[]" and crn = "cps ''00000''" and e = ResolverError and d = "CHR ''T''"
      and ds = "''TR''" and crns = "[]" and ?crns1.0 = "[]" and ?crns2.0 = "[]"]
  have e0: "expected_occurrences ?lk ?today (cps ''00000'') = []"
    using inst lk(1) by blast
  have "expected_day_occurrences ?today ?bad c = []" for c
    using failures_contained_to_their_unit [where sec = "?bad" and today = "?today" and d = c] pb
    by blast
  then have sb: "expected_section_occurrences ?today ?bad = []"
    by (simp add: expected_section_occurrences_def)
  have e1: "expected_occurrences ?lk ?today (cps ''11111'') = []"
    unfolding expected_occurrences_def lk by (simp add: sb)
  have e2: "expected_occurrences ?lk ?today (cps ''83538'') = expected_section_occurrences ?today ?good"
    unfolding expected_occurrences_def lk by simp
  have "parse_timetable_text ucd_excerpt ?lk ?today (cps ''00000 11111 83538'') =
      concat (map (expected_occurrences ?lk ?today)
        (findall5 (re_d ucd_excerpt) (cps ''00000 11111 83538'')))"
    using inst v by blast
  then have a: "parse_timetable_text ucd_excerpt ?lk ?today (cps ''00000 11111 83538'') =
      expected_section_occurrences ?today ?good"
    unfolding crns by (simp add: e0 e1 e2)
  have "section_events ?today ?bad [] = ([] @ expected_section_occurrences ?today ?bad, None)"
    using inst v by blast
  then have b: "section_events ?today ?bad [] = ([], None)" by (simp add: sb)
  show ?thesis unfolding a b sg by (simp add: concrete_event_def combine_def)
qed

subsection \<open>The recurring event payload\<close>

lemma and_then_Inr: "and_then r f = Inr y \<longleftrightarrow> (\<exists>v. r = Inr v \<and> f v = Inr y)"
  by (cases r) (simp_all add: and_then_def)

lemma and_then_simps [simp]: "and_then (Inr v) f = f v" "and_then (Inl e) f = Inl e"
  by (simp_all add: and_then_def)

lemma target_day_map_range: "target_day_map s = Some t \<Longrightarrow> 0 \<le> t \<and> t < 7"
  by (auto simp: target_day_map_def split: if_splits)

lemma target_weekday_range: "target_weekday event = Some t \<Longrightarrow> 0 \<le> t \<and> t < 7"
  by (auto simp: target_weekday_def dest: target_day_map_range split: pyval.splits)

lemma weekday_date_add:
  assumes "date_add d n = Inr d'"
  shows "weekday d' = (weekday d + n) mod 7"
proof -
  from assms have "toordinal d' = toordinal d + n"
    by (auto simp: date_add_def Let_def split: if_splits)
  then have "toordinal d' + 6 = (toordinal d + 6) + n" by simp
  then have "weekday d' = ((toordinal d + 6) + n) mod 7"
    by (simp only: weekday_def)
  also have "\<dots> = ((toordinal d + 6) mod 7 + n) mod 7"
    by (simp only: mod_add_left_eq)
  finally show ?thesis by (simp only: weekday_def)
qed

lemma next_occurrence_weekday:
  assumes "next_occurrence today target = Inr d" "0 \<le> target" "target < 7"
  shows "weekday d = target"
proof (cases "(target - weekday today) mod 7 = 0")
  case True
  then have "d = today" using assms(1) by (simp add: next_occurrence_def Let_def)
  moreover have "0 \<le> weekday today" "weekday today < 7" by (simp_all add: weekday_def)
  then have "weekday today = target" using True assms(2,3) by presburger
  ultimately show ?thesis by simp
next
  case False
  then have "date_add today ((target - weekday today) mod 7) = Inr d"
    using assms(1) by (simp add: next_occurrence_def Let_def)
  from weekday_date_add [OF this]
  have "weekday d = (weekday today + (target - weekday today) mod 7) mod 7" .
  also have "\<dots> = (weekday today + (target - weekday today)) mod 7"
    by (simp only: mod_add_right_eq)
  also have "\<dots> = target" using assms(2,3) by simp
  finally show ?thesis .
qed

lemma on_date_simps [simp]:
  "dt_date (on_date d dt) = d" "dt_time (on_date d dt) = dt_time dt"
  "dt_tzinfo (on_date d dt) = dt_tzinfo dt"
  by (simp_all add: on_date_def combine_def)

lemma shift_to_target_weekday:
  assumes "shift_to_target today event dts = Inr dts'" "target_weekday event = Some target"
  shows "weekday (dt_date (fst dts')) = target"
proof -
  from assms obtain d where d: "next_occurrence today target = Inr d"
    and t: "dts' = (on_date d (fst dts), on_date d (snd dts))"
    by (auto simp: shift_to_target_def and_then_Inr)
  from next_occurrence_weekday [OF d] target_weekday_range [OF assms(2)] t
  show ?thesis by simp
qed

lemma payload_Inr:
  assumes "payload event dts = Inr body"
  shows "start_dateTime body = fst dts \<and> end_dateTime body = snd dts \<and>
    recurrence body =
      [''RRULE:FREQ=WEEKLY;BYDAY='' @ weekday_codes ! nat (weekday (dt_date (fst dts))) @
         '';UNTIL='' @ end_date_str] \<and>
    reminders_useDefault body = False \<and> reminders_overrides body = [(''popup'', 15)] \<and>
    event ''subject'' = Some (summary body)"
  using assms
  by (auto simp: payload_def Let_def and_then_Inr subscript_def split: option.splits)

lemma event_body_of_Inr:
  assumes "event_body_of is_dst today event = Inr body"
  shows "\<exists>dts dts'. read_times is_dst event = Inr dts \<and>
           shift_to_target today event dts = Inr dts' \<and> payload event dts' = Inr body"
  using assms by (auto simp: event_body_of_def and_then_Inr)


lemma weekday_code_mem: "weekday_codes ! nat (weekday d) \<in> set weekday_codes"
proof -
  have "0 \<le> weekday d" "weekday d < 7" by (simp_all add: weekday_def)
  then have "nat (weekday d) < length weekday_codes" by (simp add: weekday_codes_def)
  then show ?thesis by (rule nth_mem)
qed

lemma next_occurrence_total:
  assumes "valid_date today" "toordinal today + 6 \<le> MAXORDINAL"
  shows "\<exists>d. next_occurrence today target = Inr d"
proof -
  have "0 \<le> (target - weekday today) mod 7" "(target - weekday today) mod 7 < 7" by simp_all
  then show ?thesis
    using assms by (auto simp: next_occurrence_def Let_def date_add_def valid_date_def)
qed

lemma event_body_of_total:
  assumes "event ''start_datetime'' = Some (PyDatetime start_dt)"
    "event ''end_datetime'' = Some (PyDatetime end_dt)"
    "event ''subject'' = Some subject"
    "valid_date today" "toordinal today + 6 \<le> MAXORDINAL"
  shows "\<exists>body. event_body_of is_dst today event = Inr body"
proof -
  have r: "read_times is_dst event =
      Inr (ensure_eastern is_dst start_dt, ensure_eastern is_dst end_dt)"
    using assms(1,2) by (simp add: read_times_def subscript_def as_datetime_def)
  obtain dts' where s: "shift_to_target today event
      (ensure_eastern is_dst start_dt, ensure_eastern is_dst end_dt) = Inr dts'"
    using next_occurrence_total [OF assms(4,5)]
    by (cases "target_weekday event") (auto simp: shift_to_target_def, metis and_then_simps(1))
  have "\<exists>body. payload event dts' = Inr body"
    using assms(3) by (simp add: payload_def Let_def subscript_def)
  then show ?thesis by (simp add: event_body_of_def r s)
qed

lemma end_date_str_value: "end_date_str = ''20251214T235959Z''"
  by (simp add: end_date_str_def strftime_basic_utc_def four_digits_def two_digits_def
      digit_char_def)

lemma ensure_eastern_simps [simp]:
  "dt_date (ensure_eastern is_dst dt) = dt_date dt"
  "dt_time (ensure_eastern is_dst dt) = dt_time dt"
  by (simp_all add: ensure_eastern_def localize_def)

lemma read_times_Inr:
  assumes "read_times is_dst event = Inr dts"
  shows "\<exists>s e. event ''start_datetime'' = Some (PyDatetime s) \<and>
           event ''end_datetime'' = Some (PyDatetime e) \<and>
           dts = (ensure_eastern is_dst s, ensure_eastern is_dst e)"
  using assms
  by (auto simp: read_times_def and_then_Inr subscript_def as_datetime_def
      split: option.splits pyval.splits)

lemma shift_to_target_start:
  assumes "shift_to_target today event dts = Inr dts'"
  shows "dt_time (fst dts') = dt_time (fst dts) \<and>
    (target_weekday event = None \<longrightarrow> dts' = dts) \<and>
    (target_weekday event = Some target \<longrightarrow>
       next_occurrence today target = Inr (dt_date (fst dts')))"
  using assms
  by (cases "target_weekday event") (auto simp: shift_to_target_def and_then_Inr)

text \<open>
  C4.  Whenever a payload is built, its recurrence rule carries as \<^verbatim>\<open>BYDAY\<close> the entry of
  \<^verbatim>\<open>weekday_codes\<close> at the weekday of the start it carries (Monday \<^verbatim>\<open>MO\<close>, ...,
  Sunday \<^verbatim>\<open>SU\<close>).  That start is the \<^verbatim>\<open>start_datetime\<close> of the event, which is a
  \<^verbatim>\<open>datetime\<close>, at its own time of day: on its own date when the event names no target
  weekday, so that the code is the one of the weekday of \<^verbatim>\<open>start_datetime\<close>; and moved to
  the next date of the target weekday, today included, when the event names one, so that
  the code is the one of the target weekday.  A payload is built for every event with a
  start, an end and a subject (as long as the clock is not in the last six days of the
  calendar).
\<close>

theorem byday_is_code_of_start_weekday:
  "(event_body_of is_dst today event = Inr body \<longrightarrow>
      0 \<le> weekday (dt_date (start_dateTime body)) \<and>
      weekday (dt_date (start_dateTime body)) < 7 \<and>
      recurrence body =
        [''RRULE:FREQ=WEEKLY;BYDAY='' @
           weekday_codes ! nat (weekday (dt_date (start_dateTime body))) @
           '';UNTIL='' @ end_date_str] \<and>
      (target_weekday event = Some target \<longrightarrow>
         weekday (dt_date (start_dateTime body)) = target \<and>
         next_occurrence today target = Inr (dt_date (start_dateTime body))) \<and>
      (\<exists>s. event ''start_datetime'' = Some (PyDatetime s) \<and>
           dt_time (start_dateTime body) = dt_time s \<and>
           (target_weekday event = None \<longrightarrow>
              dt_date (start_dateTime body) = dt_date s \<and>
              recurrence body =
                [''RRULE:FREQ=WEEKLY;BYDAY='' @ weekday_codes ! nat (weekday (dt_date s)) @
                   '';UNTIL='' @ end_date_str]))) \<and>
   weekday_codes = [''MO'', ''TU'', ''WE'', ''TH'', ''FR'', ''SA'', ''SU''] \<and>
   (event ''start_datetime'' = Some (PyDatetime start_dt) \<and>
    event ''end_datetime'' = Some (PyDatetime end_dt) \<and>
    event ''subject'' = Some subject \<and>
    valid_date today \<and> toordinal today + 6 \<le> MAXORDINAL \<longrightarrow>
      (\<exists>b. event_body_of is_dst today event = Inr b))"
proof (intro conjI impI)
  assume b: "event_body_of is_dst today event = Inr body"
  from event_body_of_Inr [OF b] obtain dts dts' where
    rd: "read_times is_dst event = Inr dts" and
    sh: "shift_to_target today event dts = Inr dts'" and p: "payload event dts' = Inr body"
    by blast
  from payload_Inr [OF p] have st: "start_dateTime body = fst dts'"
    and rec: "recurrence body =
      [''RRULE:FREQ=WEEKLY;BYDAY='' @ weekday_codes ! nat (weekday (dt_date (fst dts'))) @
         '';UNTIL='' @ end_date_str]"
    by simp_all
  show "0 \<le> weekday (dt_date (start_dateTime body))"
    "weekday (dt_date (start_dateTime body)) < 7"
    by (simp_all add: weekday_def)
  show r: "recurrence body =
        [''RRULE:FREQ=WEEKLY;BYDAY='' @
           weekday_codes ! nat (weekday (dt_date (start_dateTime body))) @
           '';UNTIL='' @ end_date_str]"
    using rec st by simp
  from read_times_Inr [OF rd] obtain s e where
    s: "event ''start_datetime'' = Some (PyDatetime s)"
    and dts: "dts = (ensure_eastern is_dst s, ensure_eastern is_dst e)"
    by blast
  have tm: "dt_time (start_dateTime body) = dt_time s"
    using shift_to_target_start [OF sh] st dts by simp
  have un: "dt_date (start_dateTime body) = dt_date s" if "target_weekday event = None"
    using shift_to_target_start [OF sh] st dts that by simp
  show "\<exists>s. event ''start_datetime'' = Some (PyDatetime s) \<and>
           dt_time (start_dateTime body) = dt_time s \<and>
           (target_weekday event = None \<longrightarrow>
              dt_date (start_dateTime body) = dt_date s \<and>
              recurrence body =
                [''RRULE:FREQ=WEEKLY;BYDAY='' @ weekday_codes ! nat (weekday (dt_date s)) @
                   '';UNTIL='' @ end_date_str])"
    using s tm un r by (intro exI [of _ s]) auto
  assume t: "target_weekday event = Some target"
  from shift_to_target_weekday [OF sh t] st
  show "weekday (dt_date (start_dateTime body)) = target" by simp
  show "next_occurrence today target = Inr (dt_date (start_dateTime body))"
    using shift_to_target_start [OF sh, of target] t st by simp
next
  show "weekday_codes = [''MO'', ''TU'', ''WE'', ''TH'', ''FR'', ''SA'', ''SU'']"
    by (simp add: weekday_codes_def)
next
  assume "event ''start_datetime'' = Some (PyDatetime start_dt) \<and>
    event ''end_datetime'' = Some (PyDatetime end_dt) \<and>
    event ''subject'' = Some subject \<and>
    valid_date today \<and> toordinal today + 6 \<le> MAXORDINAL"
  then show "\<exists>b. event_body_of is_dst today event = Inr b"
    using event_body_of_total by blast
qed

theorem byday_is_code_of_start_weekday_witness:
  "(\<exists>b. event_body_of (\<lambda>dt. True) (Date 739495)
         [''subject'' \<mapsto> PyStr ''CS1114 Intro'',
          ''start_datetime'' \<mapsto> PyDatetime \<lparr>dt_date = Date 739495,
             dt_time = \<lparr>hour = 9, minute = 0, second = 0, microsecond = 0\<rparr>, dt_tzinfo = None\<rparr>,
          ''end_datetime'' \<mapsto> PyDatetime \<lparr>dt_date = Date 739495,
             dt_time = \<lparr>hour = 9, minute = 50, second = 0, microsecond = 0\<rparr>, dt_tzinfo = None\<rparr>,
          ''location'' \<mapsto> PyStr ''McBryde 100'',
          ''day'' \<mapsto> PyStr ''Wednesday''] = Inr b \<and>
       weekday (dt_date (start_dateTime b)) = 2 \<and>
       recurrence b = [''RRULE:FREQ=WEEKLY;BYDAY=WE;UNTIL=20251214T235959Z'']) \<and>
   (\<exists>b. event_body_of (\<lambda>dt. True) (Date 739495)
         [''subject'' \<mapsto> PyStr ''CS1114 Intro'',
          ''start_datetime'' \<mapsto> PyDatetime \<lparr>dt_date = Date 739499,
             dt_time = \<lparr>hour = 9, minute = 0, second = 0, microsecond = 0\<rparr>, dt_tzinfo = None\<rparr>,
          ''end_datetime'' \<mapsto> PyDatetime \<lparr>dt_date = Date 739499,
             dt_time = \<lparr>hour = 9, minute = 50, second = 0, microsecond = 0\<rparr>, dt_tzinfo = None\<rparr>,
          ''location'' \<mapsto> PyStr ''McBryde 100''] = Inr b \<and>
       dt_date (start_dateTime b) = Date 739499 \<and>
       dt_time (start_dateTime b) = \<lparr>hour = 9, minute = 0, second = 0, microsecond = 0\<rparr> \<and>
       recurrence b = [''RRULE:FREQ=WEEKLY;BYDAY=FR;UNTIL=20251214T235959Z''])"
proof -
  let ?s = "\<lparr>dt_date = Date 739495,
             dt_time = \<lparr>hour = 9, minute = 0, second = 0, microsecond = 0\<rparr>, dt_tzinfo = None\<rparr>"
  let ?e = "\<lparr>dt_date = Date 739495,
             dt_time = \<lparr>hour = 9, minute = 50, second = 0, microsecond = 0\<rparr>, dt_tzinfo = None\<rparr>"
  let ?ev = "[''subject'' \<mapsto> PyStr ''CS1114 Intro'', ''start_datetime'' \<mapsto> PyDatetime ?s,
          ''end_datetime'' \<mapsto> PyDatetime ?e, ''location'' \<mapsto> PyStr ''McBryde 100'',
          ''day'' \<mapsto> PyStr ''Wednesday'']"
  have k: "?ev ''start_datetime'' = Some (PyDatetime ?s)" "?ev ''end_datetime'' = Some (PyDatetime ?e)"
    "?ev ''subject'' = Some (PyStr ''CS1114 Intro'')"
    by simp_all
  have v: "valid_date (Date 739495)" "toordinal (Date 739495) + 6 \<le> MAXORDINAL"
    by (simp_all add: valid_date_def MAXORDINAL_def)
  have t: "target_weekday ?ev = Some 2"
    by (simp add: target_weekday_def pget_def target_day_map_def)
  note inst = byday_is_code_of_start_weekday [where is_dst = "\<lambda>dt. True" and today = "Date 739495"
      and event = "?ev" and start_dt = "?s" and end_dt = "?e"
      and subject = "PyStr ''CS1114 Intro''" and target = 2]
  from inst k v obtain b where b: "event_body_of (\<lambda>dt. True) (Date 739495) ?ev = Inr b"
    by blast
  note instb = byday_is_code_of_start_weekday [where is_dst = "\<lambda>dt. True"
      and today = "Date 739495" and event = "?ev" and body = b and target = 2]
  from instb b t have w: "weekday (dt_date (start_dateTime b)) = 2" by blast
  from instb b have "recurrence b = [''RRULE:FREQ=WEEKLY;BYDAY='' @
           weekday_codes ! nat (weekday (dt_date (start_dateTime b))) @
           '';UNTIL='' @ end_date_str]" by blast
  then have "recurrence b = [''RRULE:FREQ=WEEKLY;BYDAY=WE;UNTIL=20251214T235959Z'']"
    unfolding w by (simp add: weekday_codes_def end_date_str_value)
  with b w have first: "\<exists>b. event_body_of (\<lambda>dt. True) (Date 739495) ?ev = Inr b \<and>
       weekday (dt_date (start_dateTime b)) = 2 \<and>
       recurrence b = [''RRULE:FREQ=WEEKLY;BYDAY=WE;UNTIL=20251214T235959Z'']"
    by blast
  let ?s2 = "\<lparr>dt_date = Date 739499,
             dt_time = \<lparr>hour = 9, minute = 0, second = 0, microsecond = 0\<rparr>, dt_tzinfo = None\<rparr>"
  let ?e2 = "\<lparr>dt_date = Date 739499,
             dt_time = \<lparr>hour = 9, minute = 50, second = 0, microsecond = 0\<rparr>, dt_tzinfo = None\<rparr>"
  let ?ev2 = "[''subject'' \<mapsto> PyStr ''CS1114 Intro'', ''start_datetime'' \<mapsto> PyDatetime ?s2,
          ''end_datetime'' \<mapsto> PyDatetime ?e2, ''location'' \<mapsto> PyStr ''McBryde 100'']"
  have k2: "?ev2 ''start_datetime'' = Some (PyDatetime ?s2)"
    "?ev2 ''end_datetime'' = Some (PyDatetime ?e2)"
    "?ev2 ''subject'' = Some (PyStr ''CS1114 Intro'')"
    by simp_all
  have t2: "target_weekday ?ev2 = None"
    by (simp add: target_weekday_def pget_def)
  note inst2 = byday_is_code_of_start_weekday [where is_dst = "\<lambda>dt. True"
      and today = "Date 739495" and event = "?ev2" and start_dt = "?s2" and end_dt = "?e2"
      and subject = "PyStr ''CS1114 Intro''"]
  from inst2 k2 v obtain b2 where b2: "event_body_of (\<lambda>dt. True) (Date 739495) ?ev2 = Inr b2"
    by blast
  note inst2b = byday_is_code_of_start_weekday [where is_dst = "\<lambda>dt. True"
      and today = "Date 739495" and event = "?ev2" and body = b2]
  from inst2b b2 t2 obtain s where
    s: "?ev2 ''start_datetime'' = Some (PyDatetime s)"
      "dt_time (start_dateTime b2) = dt_time s" "dt_date (start_dateTime b2) = dt_date s"
      "recurrence b2 =
        [''RRULE:FREQ=WEEKLY;BYDAY='' @ weekday_codes ! nat (weekday (dt_date s)) @
           '';UNTIL='' @ end_date_str]"
    by blast
  from s(1) have "s = ?s2" by simp
  with s(2-4) have "dt_date (start_dateTime b2) = Date 739499"
    "dt_time (start_dateTime b2) = \<lparr>hour = 9, minute = 0, second = 0, microsecond = 0\<rparr>"
    "recurrence b2 = [''RRULE:FREQ=WEEKLY;BYDAY=FR;UNTIL=20251214T235959Z'']"
    by (simp_all add: weekday_def weekday_codes_def end_date_str_value)
  with b2 have second: "\<exists>b. event_body_of (\<lambda>dt. True) (Date 739495) ?ev2 = Inr b \<and>
       dt_date (start_dateTime b) = Date 739499 \<and>
       dt_time (start_dateTime b) = \<lparr>hour = 9, minute = 0, second = 0, microsecond = 0\<rparr> \<and>
       recurrence b = [''RRULE:FREQ=WEEKLY;BYDAY=FR;UNTIL=20251214T235959Z'']"
    by blast
  from first second show ?thesis by blast
qed

text \<open>
  C8.  Whenever a payload is built, its recurrence is one rule, of weekly frequency,
  whose \<^verbatim>\<open>UNTIL\<close> is the end of the semester, 2025-12-14 23:59:59 UTC, written
  \<^verbatim>\<open>20251214T235959Z\<close>; default reminders are off and there is exactly one override, a
  popup 15 minutes before the start.
\<close>

theorem payload_weekly_until_semester_end_single_reminder:
  "(event_body_of is_dst today event = Inr body \<longrightarrow>
      (\<exists>code. code \<in> set weekday_codes \<and>
         recurrence body = [''RRULE:FREQ=WEEKLY;BYDAY='' @ code @ '';UNTIL=20251214T235959Z'']) \<and>
      reminders_useDefault body = False \<and>
      reminders_overrides body = [(''popup'', 15)]) \<and>
   end_date_str = ''20251214T235959Z'' \<and>
   (event ''start_datetime'' = Some (PyDatetime start_dt) \<and>
    event ''end_datetime'' = Some (PyDatetime end_dt) \<and>
    event ''subject'' = Some subject \<and>
    valid_date today \<and> toordinal today + 6 \<le> MAXORDINAL \<longrightarrow>
      (\<exists>b. event_body_of is_dst today event = Inr b))"
proof (intro conjI impI)
  assume b: "event_body_of is_dst today event = Inr body"
  from event_body_of_Inr [OF b] obtain dts' where p: "payload event dts' = Inr body"
    by blast
  note pl = payload_Inr [OF p]
  have "recurrence body =
      [''RRULE:FREQ=WEEKLY;BYDAY='' @ weekday_codes ! nat (weekday (dt_date (fst dts'))) @
         '';UNTIL=20251214T235959Z'']"
    using pl by (simp add: end_date_str_value)
  then show "\<exists>code. code \<in> set weekday_codes \<and>
      recurrence body = [''RRULE:FREQ=WEEKLY;BYDAY='' @ code @ '';UNTIL=20251214T235959Z'']"
    using weekday_code_mem by blast
  show "reminders_useDefault body = False" "reminders_overrides body = [(''popup'', 15)]"
    using pl by simp_all
next
  show "end_date_str = ''20251214T235959Z''" by (rule end_date_str_value)
next
  assume "event ''start_datetime'' = Some (PyDatetime start_dt) \<and>
    event ''end_datetime'' = Some (PyDatetime end_dt) \<and>
    event ''subject'' = Some subject \<and>
    valid_date today \<and> toordinal today + 6 \<le> MAXORDINAL"
  then show "\<exists>b. event_body_of is_dst today event = Inr b"
    using event_body_of_total by blast
qed


theorem payload_weekly_until_semester_end_single_reminder_witness:
  "\<exists>b. event_body_of (\<lambda>dt. False) (Date 739495)
         [''subject'' \<mapsto> PyStr ''MATH2114 Linear Algebra'',
          ''start_datetime'' \<mapsto> PyDatetime \<lparr>dt_date = Date 739494,
             dt_time = \<lparr>hour = 14, minute = 30, second = 0, microsecond = 0\<rparr>, dt_tzinfo = None\<rparr>,
          ''end_datetime'' \<mapsto> PyDatetime \<lparr>dt_date = Date 739494,
             dt_time = \<lparr>hour = 15, minute = 45, second = 0, microsecond = 0\<rparr>, dt_tzinfo = None\<rparr>]
         = Inr b \<and>
       reminders_useDefault b = False \<and>
       reminders_overrides b = [(''popup'', 15)] \<and>
       (\<exists>code. code \<in> set weekday_codes \<and>
          recurrence b = [''RRULE:FREQ=WEEKLY;BYDAY='' @ code @ '';UNTIL=20251214T235959Z''])"
proof -
  let ?s = "\<lparr>dt_date = Date 739494,
             dt_time = \<lparr>hour = 14, minute = 30, second = 0, microsecond = 0\<rparr>, dt_tzinfo = None\<rparr>"
  let ?e = "\<lparr>dt_date = Date 739494,
             dt_time = \<lparr>hour = 15, minute = 45, second = 0, microsecond = 0\<rparr>, dt_tzinfo = None\<rparr>"
  let ?ev = "[''subject'' \<mapsto> PyStr ''MATH2114 Linear Algebra'',
          ''start_datetime'' \<mapsto> PyDatetime ?s, ''end_datetime'' \<mapsto> PyDatetime ?e]"
  have k: "?ev ''start_datetime'' = Some (PyDatetime ?s)" "?ev ''end_datetime'' = Some (PyDatetime ?e)"
    "?ev ''subject'' = Some (PyStr ''MATH2114 Linear Algebra'')"
    by simp_all
  have v: "valid_date (Date 739495)" "toordinal (Date 739495) + 6 \<le> MAXORDINAL"
    by (simp_all add: valid_date_def MAXORDINAL_def)
  note inst = payload_weekly_until_semester_end_single_reminder [where is_dst = "\<lambda>dt. False"
      and today = "Date 739495" and event = "?ev" and start_dt = "?s" and end_dt = "?e"
      and subject = "PyStr ''MATH2114 Linear Algebra''"]
  from inst k v obtain b where b: "event_body_of (\<lambda>dt. False) (Date 739495) ?ev = Inr b"
    by blast
  note instb = payload_weekly_until_semester_end_single_reminder [where is_dst = "\<lambda>dt. False"
      and today = "Date 739495" and event = "?ev" and body = b]
  from instb b show ?thesis by blast
qed

subsection \<open>Batch submission\<close>

lemma pget_of_json: "pget (map_option of_json \<circ> e) k = of_json (jget e k)"
  by (simp add: pget_def jget_def split: option.splits)

lemma convert_field_other:
  assumes "convert_field f k ev = Inr ev'" "k' \<noteq> k"
  shows "pget ev' k' = pget ev k'"
  using assms
  by (auto simp: convert_field_def and_then_Inr pget_def split: pyval.splits)

lemma convert_field_none:
  assumes "pget ev k = PyNone"
  shows "convert_field f k ev = Inr ev"
  using assms by (simp add: convert_field_def)

lemma convert_datetimes_lacking:
  assumes "lacks_datetime e" "convert_datetimes f e = Inr ev"
  shows "pget ev ''start_datetime'' = PyNone \<or> pget ev ''end_datetime'' = PyNone"
proof -
  let ?ev0 = "map_option of_json \<circ> e"
  from assms(2) obtain ev1 where
    c1: "convert_field f ''start_datetime'' ?ev0 = Inr ev1" and
    c2: "convert_field f ''end_datetime'' ev1 = Inr ev"
    by (auto simp: convert_datetimes_def and_then_Inr)
  from assms(1) consider "jget e ''start_datetime'' = JNull" | "jget e ''end_datetime'' = JNull"
    by (auto simp: lacks_datetime_def)
  then show ?thesis
  proof cases
    case 1
    then have "pget ?ev0 ''start_datetime'' = PyNone" by (simp add: pget_of_json)
    then have "ev1 = ?ev0" using c1 by (simp add: convert_field_none)
    then have "pget ev1 ''start_datetime'' = PyNone"
      using \<open>pget ?ev0 ''start_datetime'' = PyNone\<close> by simp
    moreover have "pget ev ''start_datetime'' = pget ev1 ''start_datetime''"
      by (rule convert_field_other [OF c2]) simp
    ultimately show ?thesis by simp
  next
    case 2
    then have "pget ?ev0 ''end_datetime'' = PyNone" by (simp add: pget_of_json)
    moreover have "pget ev1 ''end_datetime'' = pget ?ev0 ''end_datetime''"
      by (rule convert_field_other [OF c1]) simp
    ultimately have n: "pget ev1 ''end_datetime'' = PyNone" by simp
    then have "ev = ev1" using c2 by (simp add: convert_field_none)
    with n show ?thesis by simp
  qed
qed

lemma submit_one_lacking:
  assumes "lacks_datetime e"
  shows "submit_one cal f is_dst today w rs e = (w, rs)"
proof (cases "convert_datetimes f e")
  case (Inl err)
  then show ?thesis by (simp add: submit_one_def)
next
  case (Inr ev)
  from convert_datetimes_lacking [OF assms Inr]
  have "\<not> (ptruthy (pget ev ''start_datetime'') \<and> ptruthy (pget ev ''end_datetime''))"
    by auto
  then show ?thesis using Inr by (auto simp: submit_one_def)
qed

lemma submit_loop_filter:
  "submit_loop cal f is_dst today w rs es =
   submit_loop cal f is_dst today w rs (filter (\<lambda>e. \<not> lacks_datetime e) es)"
  by (induction es arbitrary: w rs) (simp_all add: submit_one_lacking split: prod.splits)

lemma str_nat_digit: "n < 10 \<Longrightarrow> str_nat n = [digit_char n]"
  by simp

declare str_nat.simps [simp del]


text \<open>
  C10.  An event of the submission set that lacks a start or an end leaves the world and
  the results as they are: no submission is attempted for it and nothing is appended.
  Hence the batch behaves as if such events were not in the deduplicated set, and they
  do not count in the message.  An occurrence without the key \<^verbatim>\<open>start_datetime\<close> or
  without the key \<^verbatim>\<open>end_datetime\<close>, as every arranged occurrence is, is such an event.
\<close>

theorem events_lacking_datetimes_are_skipped:
  "(lacks_datetime e \<longrightarrow> submit_one cal f is_dst today w rs e = (w, rs)) \<and>
   submit_loop cal f is_dst today w rs es =
     submit_loop cal f is_dst today w rs (filter (\<lambda>e. \<not> lacks_datetime e) es) \<and>
   create_events_in_calendar cal f is_dst today w events =
     (case submit_loop cal f is_dst today w []
             (filter (\<lambda>e. \<not> lacks_datetime e) (dedup events)) of
        (w', creation_results) \<Rightarrow>
          (w', \<lparr>results = creation_results,
                message = ''Created '' @ str_nat (length creation_results) @
                  '' recurring events in Google Calendar.''\<rparr>)) \<and>
   (e ''start_datetime'' = None \<or> e ''end_datetime'' = None \<longrightarrow> lacks_datetime e)"
proof (intro conjI impI)
  show "lacks_datetime e \<Longrightarrow> submit_one cal f is_dst today w rs e = (w, rs)"
    by (rule submit_one_lacking)
  show "submit_loop cal f is_dst today w rs es =
     submit_loop cal f is_dst today w rs (filter (\<lambda>e. \<not> lacks_datetime e) es)"
    by (rule submit_loop_filter)
  show "create_events_in_calendar cal f is_dst today w events =
     (case submit_loop cal f is_dst today w []
             (filter (\<lambda>e. \<not> lacks_datetime e) (dedup events)) of
        (w', creation_results) \<Rightarrow>
          (w', \<lparr>results = creation_results,
                message = ''Created '' @ str_nat (length creation_results) @
                  '' recurring events in Google Calendar.''\<rparr>))"
    unfolding create_events_in_calendar_def
    using submit_loop_filter [of cal f is_dst today w "[]" "dedup events"] by simp
  show "e ''start_datetime'' = None \<or> e ''end_datetime'' = None \<Longrightarrow> lacks_datetime e"
    by (auto simp: lacks_datetime_def jget_def)
qed

theorem events_lacking_datetimes_are_skipped_witness:
  "create_events_in_calendar accepting_calendar (\<lambda>s. Inl ValueError) (\<lambda>dt. True) (Date 739495) []
     [[''subject'' \<mapsto> JStr ''CS4994 Research'', ''location'' \<mapsto> JStr ''TBA'',
       ''needs_days_input'' \<mapsto> JBool True, ''start_time_str'' \<mapsto> JStr ''-----'',
       ''end_time_str'' \<mapsto> JStr ''-----'']] =
   ([], \<lparr>results = [], message = ''Created 0 recurring events in Google Calendar.''\<rparr>)"
proof -
  let ?e = "[''subject'' \<mapsto> JStr ''CS4994 Research'', ''location'' \<mapsto> JStr ''TBA'',
       ''needs_days_input'' \<mapsto> JBool True, ''start_time_str'' \<mapsto> JStr ''-----'',
       ''end_time_str'' \<mapsto> JStr ''-----'']"
  have d: "dedup [?e] = [?e]"
    by (simp add: dedup_def)
  note inst = events_lacking_datetimes_are_skipped [where e = "?e" and events = "[?e]"
      and cal = accepting_calendar and f = "\<lambda>s. Inl ValueError" and is_dst = "\<lambda>dt. True"
      and today = "Date 739495" and w = "[]" and rs = "[]" and es = "[]"]
  have "?e ''start_datetime'' = None" by simp
  then have l: "lacks_datetime ?e"
    using inst by blast
  have "create_events_in_calendar accepting_calendar (\<lambda>s. Inl ValueError) (\<lambda>dt. True)
      (Date 739495) [] [?e] =
     (case submit_loop accepting_calendar (\<lambda>s. Inl ValueError) (\<lambda>dt. True) (Date 739495) [] []
             (filter (\<lambda>e. \<not> lacks_datetime e) (dedup [?e])) of
        (w', creation_results) \<Rightarrow>
          (w', \<lparr>results = creation_results,
                message = ''Created '' @ str_nat (length creation_results) @
                  '' recurring events in Google Calendar.''\<rparr>))"
    using inst by blast
  then show ?thesis
    unfolding d using l by (simp add: str_nat_digit digit_char_def)
qed

lemmas submit_eval_defs = create_events_in_calendar_def submit_one_def convert_datetimes_def
  convert_field_def create_google_event_def event_body_of_def read_times_def
  shift_to_target_def payload_def subscript_def as_datetime_def target_weekday_def
  target_day_map_def next_occurrence_def ensure_eastern_def localize_def pget_def
  accepting_calendar_def fromisoformat_sample_def weekday_def date_add_def MAXORDINAL_def
  on_date_def combine_def

text \<open>
  C9.  The message counts the results appended, and a result is appended only after the
  debug print of line 296, which reads \<^verbatim>\<open>event['day']\<close>.  For an event without the key
  \<^verbatim>\<open>day\<close>, which \<^verbatim>\<open>create_google_event\<close> accepts, the calendar stores the event, the
  print raises \<^verbatim>\<open>KeyError\<close> and the stored event is not counted: one event is created
  and the message says 0.  With the key \<^verbatim>\<open>day\<close> the same event is counted.
\<close>

theorem created_event_without_day_is_not_counted:
  "length (fst (create_events_in_calendar accepting_calendar fromisoformat_sample (\<lambda>dt. True)
      (Date 739495) []
      [[''subject'' \<mapsto> JStr ''CS1114 Intro'',
        ''start_datetime'' \<mapsto> JStr ''2025-09-01T09:00:00'',
        ''end_datetime'' \<mapsto> JStr ''2025-09-01T09:50:00'',
        ''location'' \<mapsto> JStr ''McBryde 100'']])) = 1 \<and>
   snd (create_events_in_calendar accepting_calendar fromisoformat_sample (\<lambda>dt. True)
      (Date 739495) []
      [[''subject'' \<mapsto> JStr ''CS1114 Intro'',
        ''start_datetime'' \<mapsto> JStr ''2025-09-01T09:00:00'',
        ''end_datetime'' \<mapsto> JStr ''2025-09-01T09:50:00'',
        ''location'' \<mapsto> JStr ''McBryde 100'']]) =
     \<lparr>results = [], message = ''Created 0 recurring events in Google Calendar.''\<rparr> \<and>
   length (fst (create_events_in_calendar accepting_calendar fromisoformat_sample (\<lambda>dt. True)
      (Date 739495) []
      [[''subject'' \<mapsto> JStr ''CS1114 Intro'',
        ''start_datetime'' \<mapsto> JStr ''2025-09-01T09:00:00'',
        ''end_datetime'' \<mapsto> JStr ''2025-09-01T09:50:00'',
        ''location'' \<mapsto> JStr ''McBryde 100'',
        ''day'' \<mapsto> JStr ''Monday'']])) = 1 \<and>
   snd (create_events_in_calendar accepting_calendar fromisoformat_sample (\<lambda>dt. True)
      (Date 739495) []
      [[''subject'' \<mapsto> JStr ''CS1114 Intro'',
        ''start_datetime'' \<mapsto> JStr ''2025-09-01T09:00:00'',
        ''end_datetime'' \<mapsto> JStr ''2025-09-01T09:50:00'',
        ''location'' \<mapsto> JStr ''McBryde 100'',
        ''day'' \<mapsto> JStr ''Monday'']]) =
     \<lparr>results = [\<lparr>status = ''success'', event_id = PyStr ''created''\<rparr>],
      message = ''Created 1 recurring events in Google Calendar.''\<rparr>"
proof -
  let ?e = "[''subject'' \<mapsto> JStr ''CS1114 Intro'',
        ''start_datetime'' \<mapsto> JStr ''2025-09-01T09:00:00'',
        ''end_datetime'' \<mapsto> JStr ''2025-09-01T09:50:00'',
        ''location'' \<mapsto> JStr ''McBryde 100'']"
  let ?d = "?e(''day'' \<mapsto> JStr ''Monday'')"
  have d1: "dedup [?e] = [?e]" by (simp add: dedup_def)
  have d2: "dedup [?d] = [?d]" by (simp add: dedup_def)
  have s0: "str_nat 0 = ''0''" "str_nat (Suc 0) = ''1''"
    by (simp_all add: str_nat_digit digit_char_def)
  have a: "length (fst (create_events_in_calendar accepting_calendar fromisoformat_sample
      (\<lambda>dt. True) (Date 739495) [] [?e])) = 1 \<and>
    snd (create_events_in_calendar accepting_calendar fromisoformat_sample
      (\<lambda>dt. True) (Date 739495) [] [?e]) =
     \<lparr>results = [], message = ''Created 0 recurring events in Google Calendar.''\<rparr>"
    unfolding create_events_in_calendar_def d1
    by (simp add: submit_eval_defs s0)
  have b: "length (fst (create_events_in_calendar accepting_calendar fromisoformat_sample
      (\<lambda>dt. True) (Date 739495) [] [?d])) = 1 \<and>
    snd (create_events_in_calendar accepting_calendar fromisoformat_sample
      (\<lambda>dt. True) (Date 739495) [] [?d]) =
     \<lparr>results = [\<lparr>status = ''success'', event_id = PyStr ''created''\<rparr>],
      message = ''Created 1 recurring events in Google Calendar.''\<rparr>"
    unfolding create_events_in_calendar_def d2
    by (simp add: submit_eval_defs s0)
  from a b show ?thesis by simp
qed

end
